theory Spec2Isabelle
  imports Complex_Main "HOL-Library.Word"
begin

text \<open>
  The streaming gateway of VibeCapsule: the three services that turn the streamed
  response of a language-model provider into text fragments (services/openai.ts,
  services/anthropic.ts, services/gemini.ts), the prompt builder (services/llm.ts),
  and the choice of a model and the debounced refresh of the model lists in the
  side panel. Generators are modelled by the list of what they yield and the way
  they end; the network, the byte decoder and the clock are explicit.
\<close>

section \<open>Text of the host language\<close>

text \<open>
  A string of the source language is a sequence of 16-bit code units; \<open>length\<close>,
  \<open>indexOf\<close>, \<open>startsWith\<close>, \<open>slice\<close> and indexing all count code units.
  \<open>lit\<close> writes an ASCII literal of the source as such a sequence.
\<close>

type_synonym jstring = "16 word list"

definition lit :: "string \<Rightarrow> jstring" where
  "lit s = map of_char s"

definition startsWith :: "jstring \<Rightarrow> jstring \<Rightarrow> bool" where
  "startsWith s p = (take (length p) s = p)"

text \<open>\<open>s.includes(k)\<close>: \<open>k\<close> occurs in \<open>s\<close> as a contiguous run.\<close>

fun includes_str :: "jstring \<Rightarrow> jstring \<Rightarrow> bool" where
  "includes_str [] k = (k = [])"
| "includes_str (c # cs) k = (startsWith (c # cs) k \<or> includes_str cs k)"

text \<open>
  \<open>s.trim()\<close> removes the white space and line terminator code units of the
  language from both ends.
\<close>

definition is_space :: "16 word \<Rightarrow> bool" where
  "is_space c = (c \<in> set [0x9, 0xA, 0xB, 0xC, 0xD, 0x20, 0xA0, 0x1680, 0x2000, 0x2001,
     0x2002, 0x2003, 0x2004, 0x2005, 0x2006, 0x2007, 0x2008, 0x2009, 0x200A, 0x2028,
     0x2029, 0x202F, 0x205F, 0x3000, 0xFEFF])"

definition trim :: "jstring \<Rightarrow> jstring" where
  "trim s = rev (dropWhile is_space (rev (dropWhile is_space s)))"

text \<open>
  \<open>s.split('\n')\<close>: the segments between line feeds, in order; never empty, and
  its last element is the text after the last line feed.
\<close>

fun split_nl :: "jstring \<Rightarrow> jstring list" where
  "split_nl [] = [[]]"
| "split_nl (c # cs) =
     (if c = 0xA then [] # split_nl cs
      else (case split_nl cs of [] \<Rightarrow> [[c]] | l # ls \<Rightarrow> (c # l) # ls))"

text \<open>\<open>s.indexOf(c, from)\<close> for a single code unit; \<open>None\<close> is the result -1.\<close>

function indexOf :: "jstring \<Rightarrow> 16 word \<Rightarrow> nat \<Rightarrow> nat option" where
  "indexOf s c i =
     (if i < length s then (if s ! i = c then Some i else indexOf s c (Suc i)) else None)"
  by pat_completeness auto
termination
  by (relation "measure (\<lambda>(s, c, i). length s - i)") auto

declare indexOf.simps [simp del]

text \<open>\<open>s.substring(a, b)\<close> with \<open>a \<le> b\<close>, and \<open>s.substring(a)\<close>.\<close>

definition substring :: "jstring \<Rightarrow> nat \<Rightarrow> nat \<Rightarrow> jstring" where
  "substring s a b = take (b - a) (drop a s)"

text \<open>The decimal numeral of a number, as a template literal prints it.\<close>

fun decimal :: "nat \<Rightarrow> jstring" where
  "decimal n = (if n < 10 then [of_nat (48 + n)] else decimal (n div 10) @ [of_nat (48 + n mod 10)])"

declare decimal.simps [simp del]

section \<open>JSON values and \<open>JSON.parse\<close>\<close>

text \<open>
  \<open>JSON.parse\<close> belongs to the platform, not to the repository. It is modelled after
  its grammar (ECMA-404): white space is tab, line feed, carriage return and space;
  strings may not hold raw control characters and know the escapes
  \<open>\" \\ \/ \b \f \n \r \t \uXXXX\<close>; numbers are
  \<open>-? (0 | [1-9][0-9]*) (. [0-9]+)? ([eE] [+-]? [0-9]+)?\<close>. A number is kept as the
  rational it denotes. An object keeps its members in source order; a later member
  with the same key overrides an earlier one on lookup.
\<close>

datatype json =
    JNull
  | JBool bool
  | JNum rat
  | JStr jstring
  | JArr "json list"
  | JObj "(jstring \<times> json) list"

definition is_json_ws :: "16 word \<Rightarrow> bool" where
  "is_json_ws c = (c = 0x9 \<or> c = 0xA \<or> c = 0xD \<or> c = 0x20)"

definition skip_ws :: "jstring \<Rightarrow> jstring" where
  "skip_ws s = dropWhile is_json_ws s"

definition is_digit :: "16 word \<Rightarrow> bool" where
  "is_digit c = (0x30 \<le> c \<and> c \<le> 0x39)"

definition digit_val :: "16 word \<Rightarrow> nat" where
  "digit_val c = unat c - 48"

definition hex_val :: "16 word \<Rightarrow> nat option" where
  "hex_val c =
     (if 0x30 \<le> c \<and> c \<le> 0x39 then Some (unat c - 48)
      else if 0x41 \<le> c \<and> c \<le> 0x46 then Some (unat c - 55)
      else if 0x61 \<le> c \<and> c \<le> 0x66 then Some (unat c - 87)
      else None)"

definition hex4 :: "jstring \<Rightarrow> 16 word option" where
  "hex4 s =
     (case map hex_val (take 4 s) of
        [Some a, Some b, Some c, Some d] \<Rightarrow> Some (of_nat (((a * 16 + b) * 16 + c) * 16 + d))
      | _ \<Rightarrow> None)"

definition simple_escape :: "16 word \<Rightarrow> 16 word option" where
  "simple_escape e =
     (if e = 0x22 then Some 0x22
      else if e = 0x5C then Some 0x5C
      else if e = 0x2F then Some 0x2F
      else if e = 0x62 then Some 0x8
      else if e = 0x66 then Some 0xC
      else if e = 0x6E then Some 0xA
      else if e = 0x72 then Some 0xD
      else if e = 0x74 then Some 0x9
      else None)"

definition cons_fst :: "'a \<Rightarrow> ('a list \<times> 'b) option \<Rightarrow> ('a list \<times> 'b) option" where
  "cons_fst c r = map_option (\<lambda>(s, t). (c # s, t)) r"

text \<open>The characters of a string after its opening quote, and the text after its closing quote.\<close>

fun parse_chars :: "jstring \<Rightarrow> (jstring \<times> jstring) option" where
  "parse_chars [] = None"
| "parse_chars (c # cs) =
     (if c = 0x22 then Some ([], cs)
      else if c = 0x5C then
        (case cs of
           [] \<Rightarrow> None
         | e # r \<Rightarrow>
             if e = 0x75 then
               (case hex4 r of None \<Rightarrow> None | Some u \<Rightarrow> cons_fst u (parse_chars (drop 4 r)))
             else
               (case simple_escape e of None \<Rightarrow> None | Some x \<Rightarrow> cons_fst x (parse_chars r)))
      else if c < 0x20 then None
      else cons_fst c (parse_chars cs))"

definition digits_val :: "jstring \<Rightarrow> nat" where
  "digits_val ds = foldl (\<lambda>n d. 10 * n + digit_val d) 0 ds"

text \<open>The exponent part \<open>[eE] [+-]? [0-9]+\<close>, if one is there: its value and the rest.\<close>

definition parse_exp :: "jstring \<Rightarrow> (int \<times> jstring) option" where
  "parse_exp s =
     (case s of
        [] \<Rightarrow> Some (0, s)
      | e # r \<Rightarrow>
          if e = 0x65 \<or> e = 0x45 then
            (let neg = (r \<noteq> [] \<and> hd r = 0x2D);
                 r1 = (if r \<noteq> [] \<and> (hd r = 0x2B \<or> hd r = 0x2D) then tl r else r);
                 ds = takeWhile is_digit r1
             in if ds = [] then None
                else Some ((if neg then - int (digits_val ds) else int (digits_val ds)),
                           dropWhile is_digit r1))
          else Some (0, s))"

definition parse_frac :: "jstring \<Rightarrow> (jstring \<times> jstring) option" where
  "parse_frac s =
     (case s of
        [] \<Rightarrow> Some ([], s)
      | d # r \<Rightarrow>
          if d = 0x2E then
            (let ds = takeWhile is_digit r
             in if ds = [] then None else Some (ds, dropWhile is_digit r))
          else Some ([], s))"

definition pow10 :: "int \<Rightarrow> rat" where
  "pow10 e = (if 0 \<le> e then 10 ^ nat e else 1 / 10 ^ nat (- e))"

definition parse_number :: "jstring \<Rightarrow> (rat \<times> jstring) option" where
  "parse_number s =
     (let neg = (s \<noteq> [] \<and> hd s = 0x2D);
          s1 = (if neg then tl s else s);
          ip = takeWhile is_digit s1
      in if ip = [] \<or> (hd ip = 0x30 \<and> length ip > 1) then None
         else
           (case parse_frac (dropWhile is_digit s1) of
              None \<Rightarrow> None
            | Some (fp, s2) \<Rightarrow>
                (case parse_exp s2 of
                   None \<Rightarrow> None
                 | Some (ex, s3) \<Rightarrow>
                     (let m = of_nat (digits_val (ip @ fp)) * pow10 (ex - int (length fp))
                      in Some ((if neg then - m else m), s3)))))"

text \<open>
  The recursive descent over values. The first argument bounds the values still to
  be read along one path: a level of nesting uses two units of it and has two
  brackets in the text, a further element or member uses one and has a comma before
  it. \<open>JSON_parse\<close> starts it above the length of the text, so it never runs out
  on a text that the grammar accepts.
\<close>

fun parse_value :: "nat \<Rightarrow> jstring \<Rightarrow> (json \<times> jstring) option"
  and parse_elements :: "nat \<Rightarrow> json list \<Rightarrow> jstring \<Rightarrow> (json \<times> jstring) option"
  and parse_members :: "nat \<Rightarrow> (jstring \<times> json) list \<Rightarrow> jstring \<Rightarrow> (json \<times> jstring) option"
where
  "parse_value 0 s = None"
| "parse_value (Suc n) s =
     (case skip_ws s of
        [] \<Rightarrow> None
      | c # cs \<Rightarrow>
          if c = 0x7B then
            (case skip_ws cs of
               [] \<Rightarrow> None
             | d # r \<Rightarrow> if d = 0x7D then Some (JObj [], r) else parse_members n [] cs)
          else if c = 0x5B then
            (case skip_ws cs of
               [] \<Rightarrow> None
             | d # r \<Rightarrow> if d = 0x5D then Some (JArr [], r) else parse_elements n [] cs)
          else if c = 0x22 then
            map_option (\<lambda>(v, r). (JStr v, r)) (parse_chars cs)
          else if startsWith (c # cs) (lit ''true'') then Some (JBool True, drop 4 (c # cs))
          else if startsWith (c # cs) (lit ''false'') then Some (JBool False, drop 5 (c # cs))
          else if startsWith (c # cs) (lit ''null'') then Some (JNull, drop 4 (c # cs))
          else map_option (\<lambda>(v, r). (JNum v, r)) (parse_number (c # cs)))"
| "parse_elements 0 acc s = None"
| "parse_elements (Suc n) acc s =
     (case parse_value n s of
        None \<Rightarrow> None
      | Some (v, r) \<Rightarrow>
          (case skip_ws r of
             [] \<Rightarrow> None
           | c # r' \<Rightarrow>
               if c = 0x2C then parse_elements n (acc @ [v]) r'
               else if c = 0x5D then Some (JArr (acc @ [v]), r')
               else None))"
| "parse_members 0 acc s = None"
| "parse_members (Suc n) acc s =
     (case skip_ws s of
        [] \<Rightarrow> None
      | q # cs \<Rightarrow>
          if q \<noteq> 0x22 then None
          else
            (case parse_chars cs of
               None \<Rightarrow> None
             | Some (k, r) \<Rightarrow>
                 (case skip_ws r of
                    [] \<Rightarrow> None
                  | c # r' \<Rightarrow>
                      if c \<noteq> 0x3A then None
                      else
                        (case parse_value n r' of
                           None \<Rightarrow> None
                         | Some (v, r2) \<Rightarrow>
                             (case skip_ws r2 of
                                [] \<Rightarrow> None
                              | e # r3 \<Rightarrow>
                                  if e = 0x2C then parse_members n (acc @ [(k, v)]) r3
                                  else if e = 0x7D then Some (JObj (acc @ [(k, v)]), r3)
                                  else None)))))"

text \<open>\<open>JSON.parse(s)\<close>; \<open>None\<close> is the SyntaxError it throws.\<close>

definition JSON_parse :: "jstring \<Rightarrow> json option" where
  "JSON_parse s =
     (case parse_value (Suc (length s)) s of
        None \<Rightarrow> None
      | Some (v, r) \<Rightarrow> if skip_ws r = [] then Some v else None)"

section \<open>Values of the host language and property access\<close>

text \<open>
  A value read out of a parsed object is a JSON value or \<open>undefined\<close>. Reading a
  property of \<open>null\<close> or \<open>undefined\<close> throws a TypeError, which is \<open>None\<close> below.
  The property names the decoders read (\<open>choices\<close>, \<open>delta\<close>, \<open>content\<close>,
  \<open>candidates\<close>, \<open>parts\<close>, \<open>text\<close>, \<open>type\<close>) are own properties of parsed
  objects only, so arrays, strings, numbers and booleans answer \<open>undefined\<close> for them.
\<close>

datatype jsval = Undefined | Val json

definition lookup_key :: "(jstring \<times> json) list \<Rightarrow> jstring \<Rightarrow> jsval" where
  "lookup_key kvs k = (case map_of (rev kvs) k of None \<Rightarrow> Undefined | Some v \<Rightarrow> Val v)"

text \<open>\<open>v.k\<close>\<close>

fun get_prop :: "jsval \<Rightarrow> jstring \<Rightarrow> jsval option" where
  "get_prop Undefined k = None"
| "get_prop (Val JNull) k = None"
| "get_prop (Val (JObj kvs)) k = Some (lookup_key kvs k)"
| "get_prop (Val v) k = Some Undefined"

text \<open>\<open>v[0]\<close>\<close>

fun index0 :: "jsval \<Rightarrow> jsval option" where
  "index0 Undefined = None"
| "index0 (Val JNull) = None"
| "index0 (Val (JArr xs)) = Some (case xs of [] \<Rightarrow> Undefined | x # _ \<Rightarrow> Val x)"
| "index0 (Val (JStr s)) = Some (case s of [] \<Rightarrow> Undefined | c # _ \<Rightarrow> Val (JStr [c]))"
| "index0 (Val (JObj kvs)) = Some (lookup_key kvs (lit ''0''))"
| "index0 (Val v) = Some Undefined"

definition nullish :: "jsval \<Rightarrow> bool" where
  "nullish v = (v = Undefined \<or> v = Val JNull)"

text \<open>\<open>v?.k\<close> and \<open>v?.[0]\<close>: \<open>undefined\<close> on a nullish value, the plain access otherwise.\<close>

definition opt_prop :: "jsval \<Rightarrow> jstring \<Rightarrow> jsval" where
  "opt_prop v k = (if nullish v then Undefined else (case get_prop v k of None \<Rightarrow> Undefined | Some r \<Rightarrow> r))"

definition opt_index0 :: "jsval \<Rightarrow> jsval" where
  "opt_index0 v = (if nullish v then Undefined else (case index0 v of None \<Rightarrow> Undefined | Some r \<Rightarrow> r))"

text \<open>
  The truth value of a value in a condition. A number is false when it is zero as a
  double, that is when its magnitude is at most half the smallest subnormal.
\<close>

fun truthy :: "jsval \<Rightarrow> bool" where
  "truthy Undefined = False"
| "truthy (Val JNull) = False"
| "truthy (Val (JBool b)) = b"
| "truthy (Val (JNum r)) = (\<bar>r\<bar> > 1 / 2 ^ 1075)"
| "truthy (Val (JStr s)) = (s \<noteq> [])"
| "truthy (Val (JArr xs)) = True"
| "truthy (Val (JObj kvs)) = True"

section \<open>The line decoder of the OpenAI service\<close>

text \<open>
  \<open>json.choices[0]?.delta?.content\<close> of services/openai.ts. \<open>None\<close> is an exception
  (here a TypeError), which the \<open>try\<close> around it catches.
\<close>

definition openai_content :: "json \<Rightarrow> jsval option" where
  "openai_content j =
     (case get_prop (Val j) (lit ''choices'') of
        None \<Rightarrow> None
      | Some choices \<Rightarrow>
          (case index0 choices of
             None \<Rightarrow> None
           | Some c \<Rightarrow> Some (opt_prop (opt_prop c (lit ''delta'')) (lit ''content''))))"

text \<open>
  The body of the \<open>try\<close> for one \<open>data: \<close> line: the fragments it yields. A parse
  error, a TypeError and a falsy content all yield nothing.
\<close>

definition openai_data :: "jstring \<Rightarrow> jsval list" where
  "openai_data line =
     (case JSON_parse (drop 6 line) of
        None \<Rightarrow> []
      | Some j \<Rightarrow>
          (case openai_content j of
             None \<Rightarrow> []
           | Some content \<Rightarrow> if truthy content then [content] else []))"

text \<open>
  The loop \<open>for (const line of lines)\<close>: the fragments yielded, and whether the
  generator returned inside the loop (on the line \<open>data: [DONE]\<close>).
\<close>

fun openai_lines :: "jstring list \<Rightarrow> jsval list \<times> bool" where
  "openai_lines [] = ([], False)"
| "openai_lines (line # rest) =
     (if trim line = [] then openai_lines rest
      else if trim line = lit ''data: [DONE]'' then ([], True)
      else if startsWith line (lit ''data: '') then
        (let (ys, r) = openai_lines rest in (openai_data line @ ys, r))
      else openai_lines rest)"

text \<open>
  The loop \<open>while (true)\<close> over the decoded chunks of the response body, from the
  buffer it has so far: the fragments yielded and whether the generator returned
  before the reader was done.
\<close>

fun openai_loop :: "jstring \<Rightarrow> jstring list \<Rightarrow> jsval list \<times> bool" where
  "openai_loop buffer [] = ([], False)"
| "openai_loop buffer (chunk # chunks) =
     (let lines = split_nl (buffer @ chunk);
          (ys, r) = openai_lines (butlast lines)
      in if r then (ys, True)
         else (let (zs, r') = openai_loop (last lines) chunks in (ys @ zs, r')))"

section \<open>The line decoder of the Anthropic service\<close>

text \<open>
  The body of the \<open>try\<close> for one data string. The comparisons with \<open>===\<close> hold for a
  string value with exactly these code units. \<open>event.delta.text\<close> is yielded as it
  is, \<open>undefined\<close> included.
\<close>

definition anthropic_data :: "jstring \<Rightarrow> jsval list" where
  "anthropic_data dataStr =
     (case JSON_parse dataStr of
        None \<Rightarrow> []
      | Some event \<Rightarrow>
          (case get_prop (Val event) (lit ''type'') of
             None \<Rightarrow> []
           | Some ty \<Rightarrow>
               if ty = Val (JStr (lit ''content_block_delta'')) then
                 (case get_prop (Val event) (lit ''delta'') of
                    None \<Rightarrow> []
                  | Some delta \<Rightarrow>
                      if opt_prop delta (lit ''type'') = Val (JStr (lit ''text_delta'')) then
                        (case get_prop delta (lit ''text'') of None \<Rightarrow> [] | Some t \<Rightarrow> [t])
                      else [])
               else []))"

fun anthropic_lines :: "jstring list \<Rightarrow> jsval list \<times> bool" where
  "anthropic_lines [] = ([], False)"
| "anthropic_lines (line # rest) =
     (if trim line = [] then anthropic_lines rest
      else if startsWith line (lit ''event: '') then anthropic_lines rest
      else if startsWith line (lit ''data: '') then
        (if drop 6 line = lit ''[DONE]'' then ([], True)
         else (let (ys, r) = anthropic_lines rest in (anthropic_data (drop 6 line) @ ys, r)))
      else anthropic_lines rest)"

fun anthropic_loop :: "jstring \<Rightarrow> jstring list \<Rightarrow> jsval list \<times> bool" where
  "anthropic_loop buffer [] = ([], False)"
| "anthropic_loop buffer (chunk # chunks) =
     (let lines = split_nl (buffer @ chunk);
          (ys, r) = anthropic_lines (butlast lines)
      in if r then (ys, True)
         else (let (zs, r') = anthropic_loop (last lines) chunks in (ys @ zs, r')))"

section \<open>The bare-array decoder of the Gemini service\<close>

text \<open>\<open>json.candidates?.[0]?.content?.parts?.[0]?.text\<close> of services/gemini.ts.\<close>

definition gemini_text :: "json \<Rightarrow> jsval option" where
  "gemini_text j =
     (case get_prop (Val j) (lit ''candidates'') of
        None \<Rightarrow> None
      | Some c \<Rightarrow>
          Some (opt_prop (opt_index0 (opt_prop (opt_prop (opt_index0 c) (lit ''content''))
                  (lit ''parts''))) (lit ''text'')))"

definition gemini_object :: "jstring \<Rightarrow> jsval list" where
  "gemini_object jsonStr =
     (case JSON_parse jsonStr of
        None \<Rightarrow> []
      | Some j \<Rightarrow>
          (case gemini_text j of
             None \<Rightarrow> []
           | Some t \<Rightarrow> if truthy t then [t] else []))"

text \<open>
  The loop \<open>for (let i = start; i < buffer.length; i++)\<close> from position \<open>i\<close>, with
  the values \<open>inString\<close> and \<open>braceCount\<close> have there: the value of \<open>end\<close> when
  the loop breaks, \<open>None\<close> when it runs off the buffer (\<open>end\<close> stays -1). At
  \<open>i = 0\<close> the code unit before is \<open>undefined\<close>, which differs from a backslash.
\<close>

function scan_end :: "jstring \<Rightarrow> nat \<Rightarrow> bool \<Rightarrow> int \<Rightarrow> nat option" where
  "scan_end buffer i inString braceCount =
     (if i < length buffer then
        (let char = buffer ! i;
             inString' = (if char = 0x22 \<and> (i = 0 \<or> buffer ! (i - 1) \<noteq> 0x5C)
                          then \<not> inString else inString)
         in if \<not> inString' then
              (let braceCount' = (if char = 0x7B then braceCount + 1 else braceCount)
               in if char = 0x7D then
                    (if braceCount' - 1 = 0 then Some i
                     else scan_end buffer (Suc i) inString' (braceCount' - 1))
                  else scan_end buffer (Suc i) inString' braceCount')
            else scan_end buffer (Suc i) inString' braceCount)
      else None)"
  by pat_completeness auto
termination
  by (relation "measure (\<lambda>(buffer, i, inString, braceCount). length buffer - i)") auto

declare scan_end.simps [simp del]

lemma indexOf_bounds: "indexOf s c i = Some k \<Longrightarrow> i \<le> k \<and> k < length s \<and> s ! k = c"
proof (induction s c i rule: indexOf.induct)
  case (1 s c i)
  then show ?case
    by (subst (asm) (2) indexOf.simps) (auto split: if_splits)
qed

text \<open>
  One round of that loop, for the proofs: from the code unit before (if any), the
  code unit at \<open>i\<close> and the two variables, either the loop breaks here (\<open>None\<close>)
  or it goes on with new values of the variables.
\<close>

definition scan_step :: "16 word option \<Rightarrow> 16 word \<Rightarrow> bool \<Rightarrow> int \<Rightarrow> (bool \<times> int) option" where
  "scan_step before char inString braceCount =
     (let inString' = (if char = 0x22 \<and> before \<noteq> Some 0x5C then \<not> inString else inString)
      in if \<not> inString' then
           (let braceCount' = (if char = 0x7B then braceCount + 1 else braceCount)
            in if char = 0x7D then
                 (if braceCount' - 1 = 0 then None else Some (inString', braceCount' - 1))
               else Some (inString', braceCount'))
         else Some (inString', braceCount))"

definition before :: "jstring \<Rightarrow> nat \<Rightarrow> 16 word option" where
  "before buffer i = (if i = 0 then None else Some (buffer ! (i - 1)))"

lemma scan_end_unfold:
  "scan_end b i s n =
     (if i < length b then
        (case scan_step (before b i) (b ! i) s n of
           None \<Rightarrow> Some i
         | Some (s', n') \<Rightarrow> scan_end b (Suc i) s' n')
      else None)"
  by (subst scan_end.simps) (auto simp: scan_step_def before_def Let_def)

lemma scan_end_bounds: "scan_end b i s n = Some e \<Longrightarrow> i \<le> e \<and> e < length b"
proof (induction "length b - i" arbitrary: i s n)
  case 0
  then show ?case by (subst (asm) scan_end_unfold) simp
next
  case (Suc k)
  from Suc.prems have lt: "i < length b"
    by (subst (asm) scan_end_unfold) (simp split: if_splits)
  show ?case
  proof (cases "scan_step (before b i) (b ! i) s n")
    case None
    with Suc.prems lt show ?thesis by (subst (asm) scan_end_unfold) simp
  next
    case (Some st)
    obtain s' n' where st: "st = (s', n')" by (cases st)
    from Suc.prems lt Some st have "scan_end b (Suc i) s' n' = Some e"
      by (subst (asm) scan_end_unfold) simp
    moreover from Suc.hyps(2) have "k = length b - Suc i" by simp
    ultimately have "Suc i \<le> e \<and> e < length b" by (rule Suc.hyps(1)[rotated])
    then show ?thesis by simp
  qed
qed

text \<open>
  The loop \<open>while (cursor < buffer.length)\<close>: the fragments yielded and the final
  value of \<open>cursor\<close>.
\<close>

function gemini_scan :: "jstring \<Rightarrow> nat \<Rightarrow> jsval list \<times> nat" where
  "gemini_scan buffer cursor =
     (if cursor < length buffer then
        (case indexOf buffer 0x7B cursor of
           None \<Rightarrow> ([], cursor)
         | Some start \<Rightarrow>
             (case scan_end buffer start False 0 of
                None \<Rightarrow> ([], cursor)
              | Some e \<Rightarrow>
                  (let (ys, c) = gemini_scan buffer (e + 1)
                   in (gemini_object (substring buffer start (e + 1)) @ ys, c))))
      else ([], cursor))"
  by pat_completeness auto
termination
proof (relation "measure (\<lambda>(buffer, cursor). length buffer - cursor)", goal_cases)
  case 1
  show ?case by simp
next
  case (2 buffer cursor start e)
  from 2 have "cursor \<le> start" "start \<le> e" "e < length buffer"
    using indexOf_bounds scan_end_bounds by blast+
  then show ?case by simp
qed

declare gemini_scan.simps [simp del]

text \<open>
  The loop \<open>while (true)\<close> over the decoded chunks, from the buffer it has so far.
  This generator has no \<open>return\<close> inside the loop.
\<close>

fun gemini_loop :: "jstring \<Rightarrow> jstring list \<Rightarrow> jsval list" where
  "gemini_loop buffer [] = []"
| "gemini_loop buffer (chunk # chunks) =
     (let buffer1 = buffer @ chunk;
          (ys, cursor) = gemini_scan buffer1 0;
          buffer2 = (if cursor > 0 then drop cursor buffer1 else buffer1)
      in ys @ gemini_loop buffer2 chunks)"

section \<open>Requests, responses and the streaming reader\<close>

text \<open>
  \<open>fetch\<close> is the network: it takes the request and resolves to a response or
  rejects with a message (\<open>Inl\<close>). A response has \<open>ok\<close>, \<open>status\<close>, the text
  that \<open>res.text()\<close> resolves to, and a body or none. Reading the body gives its
  chunks of bytes one by one and then is done, or rejects after them. The body of a
  request is kept as the object handed to \<open>JSON.stringify\<close>.
\<close>

record request =
  req_url :: jstring
  req_method :: jstring
  req_headers :: "(jstring \<times> jstring) list"
  req_body :: "json option"

record body =
  chunks :: "8 word list list"
  failure :: "jstring option"

record response =
  res_ok :: bool
  res_status :: nat
  res_text :: jstring
  res_body :: "body option"

type_synonym net = "request \<Rightarrow> jstring + response"

text \<open>
  \<open>new TextDecoder()\<close> with \<open>decode(value, {stream: true})\<close> is a transducer of the
  platform: it consumes the bytes of a chunk one after the other, keeps a state
  between bytes and between calls (an unfinished multi-byte sequence), and gives out
  code units. The state type, the initial state and the step are parameters.
\<close>

fun decode :: "('s \<Rightarrow> 8 word \<Rightarrow> 's \<times> jstring) \<Rightarrow> 's \<Rightarrow> 8 word list \<Rightarrow> 's \<times> jstring" where
  "decode step st [] = (st, [])"
| "decode step st (x # xs) =
     (let (st1, t) = step st x; (st2, u) = decode step st1 xs in (st2, t @ u))"

text \<open>The decoded text of each chunk read, in order.\<close>

fun decode_chunks :: "('s \<Rightarrow> 8 word \<Rightarrow> 's \<times> jstring) \<Rightarrow> 's \<Rightarrow> 8 word list list \<Rightarrow> jstring list" where
  "decode_chunks step st [] = []"
| "decode_chunks step st (c # cs) =
     (let (st1, t) = decode step st c in t # decode_chunks step st1 cs)"

text \<open>
  What the consumer of a generator sees: the fragments yielded, in order, and how the
  generator ended, by completing or by throwing. \<open>sent\<close> lists the requests made.
\<close>

datatype outcome = Completed | Threw jstring

record run =
  sent :: "request list"
  fragments :: "jsval list"
  outcome :: outcome

text \<open>
  The end of a reading loop: a \<open>return\<close> inside the loop completes the generator;
  otherwise the reader is read to its end, which is \<open>done\<close> or a rejection.
\<close>

definition finish :: "bool \<Rightarrow> jstring option \<Rightarrow> outcome" where
  "finish returned fail =
     (if returned then Completed else (case fail of None \<Rightarrow> Completed | Some e \<Rightarrow> Threw e))"

definition openai_read :: "('s \<Rightarrow> 8 word \<Rightarrow> 's \<times> jstring) \<Rightarrow> 's \<Rightarrow> body \<Rightarrow> jsval list \<times> outcome" where
  "openai_read step st bd =
     (let (ys, r) = openai_loop [] (decode_chunks step st (chunks bd))
      in (ys, finish r (failure bd)))"

definition anthropic_read :: "('s \<Rightarrow> 8 word \<Rightarrow> 's \<times> jstring) \<Rightarrow> 's \<Rightarrow> body \<Rightarrow> jsval list \<times> outcome" where
  "anthropic_read step st bd =
     (let (ys, r) = anthropic_loop [] (decode_chunks step st (chunks bd))
      in (ys, finish r (failure bd)))"

definition gemini_read :: "('s \<Rightarrow> 8 word \<Rightarrow> 's \<times> jstring) \<Rightarrow> 's \<Rightarrow> body \<Rightarrow> jsval list \<times> outcome" where
  "gemini_read step st bd =
     (gemini_loop [] (decode_chunks step st (chunks bd)), finish False (failure bd))"

section \<open>The prompt\<close>

record SummaryOptions =
  language :: jstring
  model :: jstring
  customPrompt :: "jstring option"
  apiKey :: jstring

definition NL :: jstring where
  "NL = [0xA]"

definition SYSTEM_PROMPT :: jstring where
  "SYSTEM_PROMPT =
     NL @ lit ''You are a professional content distiller. Your goal is to summarize the following text into 3 sections:''
     @ NL @ lit ''1. One-sentence TL;DR.''
     @ NL @ lit ''2. Key Takeaways (bullet points).''
     @ NL @ lit ''3. Action Items or Conclusion.''
     @ NL @ NL
     @ lit ''IMPORTANT: The article may be in any language, but you MUST provide the summary in {{LANGUAGE}}.''
     @ NL"

text \<open>
  \<open>s.replace(pattern, replacement)\<close> with a string pattern, after the language
  standard: the first occurrence of the pattern is replaced, and in the replacement
  \<open>$$\<close> stands for a dollar, \<open>$&\<close> for the match, \<open>$`\<close> for the text before
  the match and \<open>$'\<close> for the text after it; any other dollar stands for itself.
\<close>

fun find_sub :: "jstring \<Rightarrow> jstring \<Rightarrow> nat option" where
  "find_sub [] p = (if p = [] then Some 0 else None)"
| "find_sub (c # cs) p =
     (if startsWith (c # cs) p then Some 0 else map_option Suc (find_sub cs p))"

fun get_substitution :: "jstring \<Rightarrow> jstring \<Rightarrow> jstring \<Rightarrow> jstring \<Rightarrow> jstring" where
  "get_substitution m pre post (c # d # r) =
     (if c = 0x24 then
        (if d = 0x24 then 0x24 # get_substitution m pre post r
         else if d = 0x26 then m @ get_substitution m pre post r
         else if d = 0x60 then pre @ get_substitution m pre post r
         else if d = 0x27 then post @ get_substitution m pre post r
         else c # get_substitution m pre post (d # r))
      else c # get_substitution m pre post (d # r))"
| "get_substitution m pre post r = r"

definition replace_first :: "jstring \<Rightarrow> jstring \<Rightarrow> jstring \<Rightarrow> jstring" where
  "replace_first s p r =
     (case find_sub s p of
        None \<Rightarrow> s
      | Some i \<Rightarrow>
          take i s @ get_substitution p (take i s) (drop (i + length p) s) r
          @ drop (i + length p) s)"

text \<open>\<open>constructPrompt\<close> of services/llm.ts. An empty custom prompt is falsy.\<close>

definition constructPrompt :: "SummaryOptions \<Rightarrow> jstring \<Rightarrow> jstring" where
  "constructPrompt options content =
     (let promptTemplate =
            (case customPrompt options of
               None \<Rightarrow> SYSTEM_PROMPT
             | Some c \<Rightarrow> if c = [] then SYSTEM_PROMPT else c);
          systemInstruction = replace_first promptTemplate (lit ''{{LANGUAGE}}'') (language options)
      in systemInstruction @ NL @ NL @ lit ''---'' @ NL @ NL @ content)"

section \<open>The services\<close>

definition message :: "jstring \<Rightarrow> json" where
  "message prompt = JObj [(lit ''role'', JStr (lit ''user'')), (lit ''content'', JStr prompt)]"

text \<open>The value under a key of the object that a request carries as its body.\<close>

definition body_field :: "request \<Rightarrow> jstring \<Rightarrow> jsval" where
  "body_field req k = (case req_body req of Some (JObj kvs) \<Rightarrow> lookup_key kvs k | _ \<Rightarrow> Undefined)"

text \<open>The argument of \<open>fetch\<close> in \<open>OpenAI.summarize\<close>. An empty model is falsy.\<close>

definition openai_request :: "SummaryOptions \<Rightarrow> jstring \<Rightarrow> request" where
  "openai_request options txt =
     (let prompt = constructPrompt options txt
      in \<lparr>req_url = lit ''https://api.openai.com/v1/chat/completions'',
          req_method = lit ''POST'',
          req_headers = [(lit ''Content-Type'', lit ''application/json''),
                         (lit ''Authorization'', lit ''Bearer '' @ apiKey options)],
          req_body = Some (JObj
            [(lit ''model'', JStr (if model options = [] then lit ''gpt-4o-mini'' else model options)),
             (lit ''messages'', JArr [message prompt]),
             (lit ''stream'', JBool True)])\<rparr>)"

definition anthropic_request :: "SummaryOptions \<Rightarrow> jstring \<Rightarrow> request" where
  "anthropic_request options txt =
     (let prompt = constructPrompt options txt
      in \<lparr>req_url = lit ''https://api.anthropic.com/v1/messages'',
          req_method = lit ''POST'',
          req_headers = [(lit ''x-api-key'', apiKey options),
                         (lit ''anthropic-version'', lit ''2023-06-01''),
                         (lit ''content-type'', lit ''application/json''),
                         (lit ''anthropic-dangerous-direct-browser-access'', lit ''true'')],
          req_body = Some (JObj
            [(lit ''model'', JStr (if model options = [] then lit ''claude-3-5-sonnet-20240620''
                                   else model options)),
             (lit ''max_tokens'', JNum 1024),
             (lit ''messages'', JArr [message prompt]),
             (lit ''stream'', JBool True)])\<rparr>)"

definition gemini_request :: "SummaryOptions \<Rightarrow> jstring \<Rightarrow> request" where
  "gemini_request options txt =
     (let prompt = constructPrompt options txt;
          model = (if model options = [] then lit ''gemini-1.5-pro'' else model options);
          url = lit ''https://generativelanguage.googleapis.com/v1beta/models/'' @ model
                @ lit '':streamGenerateContent?key='' @ apiKey options
      in \<lparr>req_url = url,
          req_method = lit ''POST'',
          req_headers = [(lit ''Content-Type'', lit ''application/json'')],
          req_body = Some (JObj
            [(lit ''contents'', JArr [JObj [(lit ''parts'', JArr [JObj [(lit ''text'', JStr prompt)]])]])])\<rparr>)"

text \<open>
  The part the three \<open>summarize\<close> generators share: the request is made; a rejected
  \<open>fetch\<close> throws its error; a response that is not \<open>ok\<close> throws
  \<open>`<name> API Error: ${res.status} ${text}`\<close>; a response without body throws
  \<open>No response body\<close>; otherwise the body is read by the service's loop.
\<close>

definition summarize_with ::
  "jstring \<Rightarrow> (body \<Rightarrow> jsval list \<times> outcome) \<Rightarrow> net \<Rightarrow> request \<Rightarrow> run" where
  "summarize_with name reader fetch req =
     (case fetch req of
        Inl e \<Rightarrow> \<lparr>sent = [req], fragments = [], outcome = Threw e\<rparr>
      | Inr res \<Rightarrow>
          if \<not> res_ok res then
            \<lparr>sent = [req], fragments = [],
             outcome = Threw (name @ lit '' API Error: '' @ decimal (res_status res)
                              @ lit '' '' @ res_text res)\<rparr>
          else
            (case res_body res of
               None \<Rightarrow> \<lparr>sent = [req], fragments = [], outcome = Threw (lit ''No response body'')\<rparr>
             | Some bd \<Rightarrow>
                 (let (ys, out) = reader bd in \<lparr>sent = [req], fragments = ys, outcome = out\<rparr>)))"

definition openai_summarize ::
  "net \<Rightarrow> ('s \<Rightarrow> 8 word \<Rightarrow> 's \<times> jstring) \<Rightarrow> 's \<Rightarrow> jstring \<Rightarrow> SummaryOptions \<Rightarrow> run" where
  "openai_summarize fetch step st txt options =
     summarize_with (lit ''OpenAI'') (openai_read step st) fetch (openai_request options txt)"

definition anthropic_summarize ::
  "net \<Rightarrow> ('s \<Rightarrow> 8 word \<Rightarrow> 's \<times> jstring) \<Rightarrow> 's \<Rightarrow> jstring \<Rightarrow> SummaryOptions \<Rightarrow> run" where
  "anthropic_summarize fetch step st txt options =
     summarize_with (lit ''Anthropic'') (anthropic_read step st) fetch (anthropic_request options txt)"

definition gemini_summarize ::
  "net \<Rightarrow> ('s \<Rightarrow> 8 word \<Rightarrow> 's \<times> jstring) \<Rightarrow> 's \<Rightarrow> jstring \<Rightarrow> SummaryOptions \<Rightarrow> run" where
  "gemini_summarize fetch step st txt options =
     summarize_with (lit ''Gemini'') (gemini_read step st) fetch (gemini_request options txt)"

text \<open>
  \<open>validateKey\<close> of the three services: the answer and the requests made for it.
  A \<open>fetch\<close> without options is a GET.
\<close>

definition openai_models_request :: "jstring \<Rightarrow> request" where
  "openai_models_request key =
     \<lparr>req_url = lit ''https://api.openai.com/v1/models'',
      req_method = lit ''GET'',
      req_headers = [(lit ''Authorization'', lit ''Bearer '' @ key)],
      req_body = None\<rparr>"

definition openai_validateKey :: "net \<Rightarrow> jstring \<Rightarrow> bool \<times> request list" where
  "openai_validateKey fetch key =
     (if \<not> startsWith key (lit ''sk-'') then (False, [])
      else
        (case fetch (openai_models_request key) of
           Inl e \<Rightarrow> (False, [openai_models_request key])
         | Inr res \<Rightarrow> (res_ok res, [openai_models_request key])))"

definition anthropic_validateKey :: "net \<Rightarrow> jstring \<Rightarrow> bool \<times> request list" where
  "anthropic_validateKey fetch key = (startsWith key (lit ''sk-ant-''), [])"

definition gemini_validateKey :: "net \<Rightarrow> jstring \<Rightarrow> bool \<times> request list" where
  "gemini_validateKey fetch key = (length key > 10, [])"

section \<open>The choice of a model\<close>

text \<open>
  \<open>pickBestModel\<close> of the side panel. \<open>preferences\<close> is an object literal, so
  \<open>preferences[provider]\<close> is the list under the provider's own key, or else what
  every object inherits under that name (a function, or for \<open>__proto__\<close> the
  prototype object), or else \<open>undefined\<close>. With \<open>|| []\<close> the last becomes the empty
  list; an inherited value is truthy and stays. The loop \<open>for ... of\<close> over a value
  that is not iterable throws a TypeError.
\<close>

datatype exception = TypeError

datatype looked_up = NoProperty | OwnList "jstring list" | InheritedObject

definition preferences :: "(jstring \<times> jstring list) list" where
  "preferences =
     [(lit ''openai'', [lit ''gpt-4o-mini'', lit ''gpt-3.5-turbo'']),
      (lit ''anthropic'', [lit ''claude-3-haiku-20240307'', lit ''claude-3-5-haiku-20241022'']),
      (lit ''gemini'', [lit ''gemini-1.5-flash'', lit ''gemini-1.5-flash-latest'',
                        lit ''gemini-1.5-flash-001''])]"

text \<open>The property names that every object inherits from its prototype.\<close>

definition object_prototype_names :: "jstring list" where
  "object_prototype_names =
     [lit ''constructor'', lit ''__defineGetter__'', lit ''__defineSetter__'',
      lit ''hasOwnProperty'', lit ''__lookupGetter__'', lit ''__lookupSetter__'',
      lit ''isPrototypeOf'', lit ''propertyIsEnumerable'', lit ''toString'', lit ''valueOf'',
      lit ''__proto__'', lit ''toLocaleString'']"

text \<open>\<open>preferences[provider]\<close>\<close>

definition preferences_at :: "jstring \<Rightarrow> looked_up" where
  "preferences_at provider =
     (case map_of preferences provider of
        Some l \<Rightarrow> OwnList l
      | None \<Rightarrow> if provider \<in> set object_prototype_names then InheritedObject else NoProperty)"

definition goodKeywords :: "jstring list" where
  "goodKeywords = [lit ''flash'', lit ''mini'', lit ''haiku'', lit ''turbo'']"

text \<open>The loop \<open>for (const pref of preferredList)\<close>: the value it returns, if it returns.\<close>

fun preferred :: "jstring list \<Rightarrow> jstring list \<Rightarrow> jstring option" where
  "preferred [] models = None"
| "preferred (pref # rest) models =
     (if pref \<in> set models then Some pref else preferred rest models)"

text \<open>The function from the loop over \<open>preferredList\<close> on, for a list.\<close>

definition pick_from :: "jstring list \<Rightarrow> jstring list \<Rightarrow> jstring" where
  "pick_from preferredList models =
     (case preferred preferredList models of
        Some pref \<Rightarrow> pref
      | None \<Rightarrow>
          (let candidates = filter (\<lambda>m. list_ex (\<lambda>k. includes_str m k) goodKeywords) models
           in if length candidates > 0 then hd candidates else hd models))"

definition pickBestModel :: "jstring list \<Rightarrow> jstring \<Rightarrow> exception + jstring" where
  "pickBestModel models provider =
     (if models = [] then Inr []
      else if provider = lit ''chrome'' then Inr (lit ''gemini-nano'')
      else
        (case preferences_at provider of
           NoProperty \<Rightarrow> Inr (pick_from [] models)
         | OwnList preferredList \<Rightarrow> Inr (pick_from preferredList models)
         | InheritedObject \<Rightarrow> Inl TypeError))"

text \<open>
  The third step as the claim words it, with a priority among the keywords: for the
  first keyword that some model contains, the first model that contains it. It is
  the claim's reading, not code of the repository, and is here to be compared with
  \<open>pickBestModel\<close>.
\<close>

fun spec_keyword_priority :: "jstring list \<Rightarrow> jstring list \<Rightarrow> jstring option" where
  "spec_keyword_priority [] models = None"
| "spec_keyword_priority (k # ks) models =
     (case find (\<lambda>m. includes_str m k) models of
        Some m \<Rightarrow> Some m
      | None \<Rightarrow> spec_keyword_priority ks models)"

section \<open>The debounced refresh of the model list\<close>

text \<open>
  The three effects of the side panel, one per credential. Each run of an effect
  (a render in which the credential has changed) first runs the cleanup of the run
  before, which clears the timer, then clears the timer again and, if the credential
  passes the provider's test, sets a new timer of 1000 ms for
  \<open>fetchModels(provider, key)\<close>. Time is in milliseconds. A timer that is due when
  the next change arrives has fired before it.
\<close>

definition key_gate :: "jstring \<Rightarrow> jstring \<Rightarrow> bool" where
  "key_gate provider key =
     (if provider = lit ''openai'' then key \<noteq> [] \<and> startsWith key (lit ''sk-'')
      else if provider = lit ''anthropic'' then key \<noteq> [] \<and> startsWith key (lit ''sk-ant-'')
      else if provider = lit ''gemini'' then key \<noteq> [] \<and> length key > 10
      else False)"

text \<open>
  One run of the effect at time \<open>t\<close> with credential \<open>key\<close>, from the pending
  timer (its due time and the credential it holds): the calls of \<open>fetchModels\<close>
  that happened up to then, and the timer pending afterwards.
\<close>

definition effect :: "jstring \<Rightarrow> (nat \<times> jstring) option \<Rightarrow> nat \<times> jstring \<Rightarrow>
    (nat \<times> jstring) list \<times> (nat \<times> jstring) option" where
  "effect provider pending ev =
     (let fired = (case pending of
                     None \<Rightarrow> []
                   | Some (due, k) \<Rightarrow> if due \<le> fst ev then [(due, k)] else [])
      in (fired, if key_gate provider (snd ev) then Some (fst ev + 1000, snd ev) else None))"

text \<open>
  The calls \<open>fetchModels(provider, key)\<close>, each with its time, that a sequence of
  credential changes leads to, the last pending timer firing when it is due.
\<close>

fun refreshes :: "jstring \<Rightarrow> (nat \<times> jstring) option \<Rightarrow> (nat \<times> jstring) list \<Rightarrow> (nat \<times> jstring) list" where
  "refreshes provider pending [] = (case pending of None \<Rightarrow> [] | Some (due, k) \<Rightarrow> [(due, k)])"
| "refreshes provider pending (ev # evs) =
     (let (fired, pending') = effect provider pending ev
      in fired @ refreshes provider pending' evs)"

text \<open>
  A burst: every change after the first arrives less than the delay after the one
  before it, and not before it.
\<close>

fun burst :: "(nat \<times> jstring) list \<Rightarrow> bool" where
  "burst [] = True"
| "burst [ev] = True"
| "burst (ev # ev' # evs) = (fst ev \<le> fst ev' \<and> fst ev' < fst ev + 1000 \<and> burst (ev' # evs))"

section \<open>Inputs named in the claims\<close>

text \<open>
  The data line and the sentinel line of the OpenAI example, the Gemini example
  with braces in its text, the bytes of that example in two chunks cut inside the
  text, a Gemini object whose text is a single backslash, a custom
  prompt with two placeholders, two model lists, two
  responses, a network that answers every request with a given response, a byte
  decoder that maps every byte to the code unit of the same value, and two bursts of
  credential changes.
\<close>

definition hello_line :: jstring where
  "hello_line = lit ''data: {\"choices\":[{\"delta\":{\"content\":\"Hello\"}}]}''"

definition done_line :: jstring where
  "done_line = lit ''data: [DONE]''"

definition braces_example :: jstring where
  "braces_example = lit ''{\"candidates\":[{\"content\":{\"parts\":[{\"text\":\"a { b } c\"}]}}]}''"

definition braces_head :: "8 word list" where
  "braces_head = map of_char ''{\"candidates\":[{\"content\":{\"parts\":[{\"text\":\"a { b''"

definition braces_tail :: "8 word list" where
  "braces_tail = map of_char '' } c\"}]}}]}''"

definition backslash_payload :: jstring where
  "backslash_payload =
     lit ''{\"candidates\":[{\"content\":{\"parts\":[{\"text\":\"'' @ [0x5C, 0x5C]
     @ lit ''\"}]}}],\"modelVersion\":\"}}}}\"}''"

definition two_placeholders :: SummaryOptions where
  "two_placeholders =
     \<lparr>language = lit ''en'', model = [],
      customPrompt = Some (lit ''Answer in {{LANGUAGE}}. Title in {{LANGUAGE}}.''), apiKey = []\<rparr>"

definition other_models :: "jstring list" where
  "other_models = [lit ''big-model'', lit ''x-turbo'', lit ''y-flash'']"

definition claude_models :: "jstring list" where
  "claude_models = [lit ''claude-3-opus-20240229'', lit ''claude-3-5-haiku-20241022'',
                    lit ''claude-3-haiku-20240307'']"

definition unauthorized :: response where
  "unauthorized = \<lparr>res_ok = False, res_status = 401, res_text = lit ''denied'', res_body = None\<rparr>"

definition no_body :: response where
  "no_body = \<lparr>res_ok = True, res_status = 204, res_text = lit ''gone'', res_body = None\<rparr>"

definition serve :: "response \<Rightarrow> net" where
  "serve res req = Inr res"

definition latin1 :: "unit \<Rightarrow> 8 word \<Rightarrow> unit \<times> jstring" where
  "latin1 st b = (st, [ucast b])"

definition plain_options :: SummaryOptions where
  "plain_options = \<lparr>language = lit ''en'', model = [], customPrompt = None, apiKey = lit ''k''\<rparr>"

definition typing_burst :: "(nat \<times> jstring) list" where
  "typing_burst = [(0, lit ''sk-a''), (100, lit ''sk-ab''), (200, lit ''sk-abc''),
                   (300, lit ''sk-abcd''), (400, lit ''sk-abcde'')]"

definition deleting_burst :: "(nat \<times> jstring) list" where
  "deleting_burst = [(0, lit ''sk-a''), (100, lit ''sk-''), (200, lit ''sk''),
                     (300, lit ''s''), (400, [])]"

section \<open>Chunks and lines\<close>

text \<open>
  Splitting a text that arrives in two pieces: the lines completed by the first piece,
  then the split of what the first piece left unfinished followed by the second piece.
\<close>

lemma split_nl_nonempty: "split_nl s \<noteq> []"
  by (induction s) (auto split: list.splits)

lemma split_nl_append:
  "split_nl (a @ b) = butlast (split_nl a) @ split_nl (last (split_nl a) @ b)"
proof (induction a)
  case Nil
  show ?case by simp
next
  case (Cons c a)
  obtain l ls where sp: "split_nl a = l # ls"
    using split_nl_nonempty [of a] by (cases "split_nl a") auto
  show ?case
  proof (cases "c = 0xA")
    case True
    with Cons sp show ?thesis by simp
  next
    case False
    show ?thesis
    proof (cases ls)
      case Nil
      with Cons sp False show ?thesis by simp
    next
      case (Cons m ms)
      with Cons.IH sp False show ?thesis by simp
    qed
  qed
qed

lemma butlast_split_nl_append:
  "butlast (split_nl (a @ b)) = butlast (split_nl a) @ butlast (split_nl (last (split_nl a) @ b))"
  by (subst split_nl_append) (simp add: butlast_append split_nl_nonempty)

lemma last_split_nl_append:
  "last (split_nl (a @ b)) = last (split_nl (last (split_nl a) @ b))"
  by (subst split_nl_append) (simp add: split_nl_nonempty)

lemma openai_lines_append:
  "openai_lines (xs @ ys) =
     (let (f, r) = openai_lines xs
      in if r then (f, True) else (let (g, r') = openai_lines ys in (f @ g, r')))"
  by (induction xs) (auto split: prod.splits)

lemma anthropic_lines_append:
  "anthropic_lines (xs @ ys) =
     (let (f, r) = anthropic_lines xs
      in if r then (f, True) else (let (g, r') = anthropic_lines ys in (f @ g, r')))"
  by (induction xs) (auto split: prod.splits)


lemma openai_loop_merge:
  "openai_loop b (c1 # c2 # cs) = openai_loop b ((c1 @ c2) # cs)"
proof -
  define l1 where "l1 = split_nl (b @ c1)"
  define l2 where "l2 = split_nl (last l1 @ c2)"
  obtain ys r where y: "openai_lines (butlast l1) = (ys, r)" by (cases "openai_lines (butlast l1)")
  obtain zs q where z: "openai_lines (butlast l2) = (zs, q)" by (cases "openai_lines (butlast l2)")
  obtain ws p where w: "openai_loop (last l2) cs = (ws, p)" by (cases "openai_loop (last l2) cs")
  have bl: "butlast (split_nl (b @ c1 @ c2)) = butlast l1 @ butlast l2"
    using butlast_split_nl_append [of "b @ c1" c2] by (simp add: l1_def l2_def)
  have la: "last (split_nl (b @ c1 @ c2)) = last l2"
    using last_split_nl_append [of "b @ c1" c2] by (simp add: l1_def l2_def)
  have lhs: "openai_loop b (c1 # c2 # cs) =
      (if r then (ys, True) else if q then (ys @ zs, True) else (ys @ zs @ ws, p))"
    using y z w by (simp add: l1_def [symmetric] l2_def [symmetric])
  have rhs: "openai_loop b ((c1 @ c2) # cs) =
      (if r then (ys, True) else if q then (ys @ zs, True) else (ys @ zs @ ws, p))"
    using y z w by (simp add: bl la openai_lines_append)
  show ?thesis by (simp only: lhs rhs)
qed


lemma anthropic_loop_merge:
  "anthropic_loop b (c1 # c2 # cs) = anthropic_loop b ((c1 @ c2) # cs)"
proof -
  define l1 where "l1 = split_nl (b @ c1)"
  define l2 where "l2 = split_nl (last l1 @ c2)"
  obtain ys r where y: "anthropic_lines (butlast l1) = (ys, r)" by (cases "anthropic_lines (butlast l1)")
  obtain zs q where z: "anthropic_lines (butlast l2) = (zs, q)" by (cases "anthropic_lines (butlast l2)")
  obtain ws p where w: "anthropic_loop (last l2) cs = (ws, p)" by (cases "anthropic_loop (last l2) cs")
  have bl: "butlast (split_nl (b @ c1 @ c2)) = butlast l1 @ butlast l2"
    using butlast_split_nl_append [of "b @ c1" c2] by (simp add: l1_def l2_def)
  have la: "last (split_nl (b @ c1 @ c2)) = last l2"
    using last_split_nl_append [of "b @ c1" c2] by (simp add: l1_def l2_def)
  have lhs: "anthropic_loop b (c1 # c2 # cs) =
      (if r then (ys, True) else if q then (ys @ zs, True) else (ys @ zs @ ws, p))"
    using y z w by (simp add: l1_def [symmetric] l2_def [symmetric])
  have rhs: "anthropic_loop b ((c1 @ c2) # cs) =
      (if r then (ys, True) else if q then (ys @ zs, True) else (ys @ zs @ ws, p))"
    using y z w by (simp add: bl la anthropic_lines_append)
  show ?thesis by (simp only: lhs rhs)
qed


lemma indexOf_append: "indexOf s c i = Some k \<Longrightarrow> indexOf (s @ t) c i = Some k"
proof (induction s c i rule: indexOf.induct)
  case (1 s c i)
  from "1.prems" have lt: "i < length s"
    by (subst (asm) indexOf.simps) (simp split: if_splits)
  show ?case
  proof (cases "s ! i = c")
    case True
    with lt "1.prems" show ?thesis
      by (subst indexOf.simps, subst (asm) indexOf.simps) (simp add: nth_append)
  next
    case False
    with lt "1.prems" have "indexOf s c (Suc i) = Some k"
      by (subst (asm) indexOf.simps) simp
    with "1.IH" lt False have "indexOf (s @ t) c (Suc i) = Some k" by simp
    with lt False show ?thesis by (subst indexOf.simps) (simp add: nth_append)
  qed
qed

lemma indexOf_shift:
  "indexOf (p @ s) c (length p + j) = map_option (\<lambda>k. length p + k) (indexOf s c j)"
proof (induction s c j rule: indexOf.induct)
  case (1 s c j)
  show ?case
  proof (cases "j < length s")
    case False
    then show ?thesis by (subst indexOf.simps, subst (2) indexOf.simps) simp
  next
    case True
    show ?thesis
    proof (cases "s ! j = c")
      case True
      with \<open>j < length s\<close> show ?thesis
        by (subst indexOf.simps, subst (2) indexOf.simps) (simp add: nth_append)
    next
      case False
      with "1.IH" \<open>j < length s\<close> show ?thesis
        by (subst indexOf.simps, subst (2) indexOf.simps) (simp add: nth_append)
    qed
  qed
qed

lemma before_append: "i < length b \<Longrightarrow> before (b @ c) i = before b i"
  by (auto simp: before_def nth_append)

lemma scan_end_append: "scan_end b i s n = Some e \<Longrightarrow> scan_end (b @ c) i s n = Some e"
proof (induction "length b - i" arbitrary: i s n)
  case 0
  then show ?case by (subst (asm) scan_end_unfold) simp
next
  case (Suc k)
  from Suc.prems have lt: "i < length b"
    by (subst (asm) scan_end_unfold) (simp split: if_splits)
  show ?case
  proof (cases "scan_step (before b i) (b ! i) s n")
    case None
    with Suc.prems lt show ?thesis
      by (subst scan_end_unfold, subst (asm) scan_end_unfold) (simp add: before_append nth_append)
  next
    case (Some st)
    obtain s' n' where st: "st = (s', n')" by (cases st)
    from Suc.prems lt Some st have "scan_end b (Suc i) s' n' = Some e"
      by (subst (asm) scan_end_unfold) simp
    moreover from Suc.hyps(2) have "k = length b - Suc i" by simp
    ultimately have "scan_end (b @ c) (Suc i) s' n' = Some e" by (rule Suc.hyps(1)[rotated])
    with lt Some st show ?thesis
      by (subst scan_end_unfold) (simp add: before_append nth_append)
  qed
qed

lemma scan_step_before: "char \<noteq> 0x22 \<Longrightarrow> scan_step x char s n = scan_step y char s n"
  by (simp add: scan_step_def)

lemma before_shift: "0 < i \<Longrightarrow> before (p @ b) (length p + i) = before b i"
  by (cases i) (simp_all add: before_def nth_append)

lemma scan_end_shift:
  "0 < i \<or> length b \<le> i \<or> b ! i \<noteq> 0x22 \<Longrightarrow>
   scan_end (p @ b) (length p + i) s n = map_option (\<lambda>e. length p + e) (scan_end b i s n)"
proof (induction "length b - i" arbitrary: i s n)
  case 0
  then have "\<not> i < length b" by simp
  then show ?case
    by (simp add: scan_end_unfold [of "p @ b" "length p + i"] scan_end_unfold [of b i])
next
  case (Suc k)
  then have lt: "i < length b" by simp
  have step: "scan_step (before (p @ b) (length p + i)) ((p @ b) ! (length p + i)) s n =
              scan_step (before b i) (b ! i) s n"
  proof (cases "0 < i")
    case True
    then show ?thesis by (simp add: before_shift)
  next
    case False
    with Suc.prems lt have "b ! i \<noteq> 0x22" by simp
    then show ?thesis using scan_step_before by simp
  qed
  show ?case
  proof (cases "scan_step (before b i) (b ! i) s n")
    case None
    with lt step show ?thesis
      by (simp add: scan_end_unfold [of "p @ b" "length p + i"] scan_end_unfold [of b i])
  next
    case (Some st)
    obtain s' n' where st: "st = (s', n')" by (cases st)
    from Suc.hyps(2) have "k = length b - Suc i" by simp
    then have "scan_end (p @ b) (length p + Suc i) s' n' =
        map_option (\<lambda>e. length p + e) (scan_end b (Suc i) s' n')"
      by (rule Suc.hyps(1)) simp
    with lt step Some st show ?thesis
      by (simp add: scan_end_unfold [of "p @ b" "length p + i"] scan_end_unfold [of b i])
  qed
qed


lemma gemini_scan_shift:
  "gemini_scan (p @ s) (length p + j) = (case gemini_scan s j of (ys, k) \<Rightarrow> (ys, length p + k))"
proof (induction s j rule: gemini_scan.induct)
  case (1 buffer cursor)
  show ?case
  proof (cases "cursor < length buffer")
    case False
    then show ?thesis
      by (simp add: gemini_scan.simps [of "p @ buffer" "length p + cursor"]
            gemini_scan.simps [of buffer cursor])
  next
    case lt: True
    show ?thesis
    proof (cases "indexOf buffer 0x7B cursor")
      case None
      with lt show ?thesis
        by (simp add: gemini_scan.simps [of "p @ buffer" "length p + cursor"]
              gemini_scan.simps [of buffer cursor] indexOf_shift)
    next
      case (Some start)
      then have st: "buffer ! start = 0x7B" "start < length buffer"
        using indexOf_bounds by blast+
      then have sh: "scan_end (p @ buffer) (length p + start) False 0 =
          map_option (\<lambda>e. length p + e) (scan_end buffer start False 0)"
        by (intro scan_end_shift) simp
      show ?thesis
      proof (cases "scan_end buffer start False 0")
        case None
        with lt Some sh show ?thesis
          by (simp add: gemini_scan.simps [of "p @ buffer" "length p + cursor"]
                gemini_scan.simps [of buffer cursor] indexOf_shift)
      next
        case e: (Some e)
        obtain ys c where r: "gemini_scan buffer (e + 1) = (ys, c)"
          by (cases "gemini_scan buffer (e + 1)")
        from "1.IH" [OF lt Some e] r
        have ih: "gemini_scan (p @ buffer) (length p + (e + 1)) = (ys, length p + c)" by simp
        have sub: "substring (p @ buffer) (length p + start) (length p + e + 1) =
            substring buffer start (e + 1)"
          by (simp add: substring_def)
        from lt Some sh e r ih sub show ?thesis
          by (simp add: gemini_scan.simps [of "p @ buffer" "length p + cursor"]
                gemini_scan.simps [of buffer cursor] indexOf_shift add.assoc)
      qed
    qed
  qed
qed

lemma gemini_scan_cursor:
  "gemini_scan b c = (ys, k) \<Longrightarrow> c \<le> length b \<Longrightarrow> c \<le> k \<and> k \<le> length b"
proof (induction b c arbitrary: ys k rule: gemini_scan.induct)
  case (1 buffer cursor)
  show ?case
  proof (cases "cursor < length buffer")
    case False
    with "1.prems" show ?thesis by (simp add: gemini_scan.simps [of buffer cursor])
  next
    case lt: True
    show ?thesis
    proof (cases "indexOf buffer 0x7B cursor")
      case None
      with lt "1.prems" show ?thesis by (simp add: gemini_scan.simps [of buffer cursor])
    next
      case (Some start)
      show ?thesis
      proof (cases "scan_end buffer start False 0")
        case None
        with lt Some "1.prems" show ?thesis by (simp add: gemini_scan.simps [of buffer cursor])
      next
        case e: (Some e)
        obtain zs c where r: "gemini_scan buffer (e + 1) = (zs, c)"
          by (cases "gemini_scan buffer (e + 1)")
        from Some e have b: "cursor \<le> start" "start \<le> e" "e < length buffer"
          using indexOf_bounds scan_end_bounds by blast+
        with "1.IH" [OF lt Some e r] have "e + 1 \<le> c \<and> c \<le> length buffer" by simp
        moreover from lt Some e r "1.prems" have "k = c"
          by (simp add: gemini_scan.simps [of buffer cursor])
        ultimately show ?thesis using b by simp
      qed
    qed
  qed
qed


lemma gemini_scan_append:
  "c \<le> length b \<Longrightarrow>
   gemini_scan (b @ t) c =
     (case gemini_scan b c of (ys, k) \<Rightarrow>
        (case gemini_scan (drop k b @ t) 0 of (zs, k') \<Rightarrow> (ys @ zs, k + k')))"
proof (induction b c rule: gemini_scan.induct)
  case (1 buffer cursor)
  have stop: "gemini_scan (buffer @ t) cursor =
      (case gemini_scan (drop cursor buffer @ t) 0 of (zs, k') \<Rightarrow> (zs, cursor + k'))"
  proof -
    have eq: "take cursor buffer @ (drop cursor buffer @ t) = buffer @ t"
      by (metis append_assoc append_take_drop_id)
    from "1.prems" have len: "length (take cursor buffer) = cursor" by simp
    show ?thesis
      using gemini_scan_shift [of "take cursor buffer" "drop cursor buffer @ t" 0]
      by (simp only: eq len add_0_right)
  qed
  show ?case
  proof (cases "cursor < length buffer")
    case False
    then show ?thesis by (simp add: gemini_scan.simps [of buffer cursor] stop)
  next
    case lt: True
    show ?thesis
    proof (cases "indexOf buffer 0x7B cursor")
      case None
      with lt show ?thesis by (simp add: gemini_scan.simps [of buffer cursor] stop)
    next
      case (Some start)
      show ?thesis
      proof (cases "scan_end buffer start False 0")
        case None
        with lt Some show ?thesis by (simp add: gemini_scan.simps [of buffer cursor] stop)
      next
        case e: (Some e)
        from Some e have b: "cursor \<le> start" "start \<le> e" "e < length buffer"
          using indexOf_bounds scan_end_bounds by blast+
        obtain ys c where r: "gemini_scan buffer (e + 1) = (ys, c)"
          by (cases "gemini_scan buffer (e + 1)")
        obtain zs k' where z: "gemini_scan (drop c buffer @ t) 0 = (zs, k')"
          by (cases "gemini_scan (drop c buffer @ t) 0")
        from "1.IH" [OF lt Some e] b r z
        have ih: "gemini_scan (buffer @ t) (e + 1) = (ys @ zs, c + k')" by simp
        have sub: "substring (buffer @ t) start (e + 1) = substring buffer start (e + 1)"
          using b by (simp add: substring_def)
        have "gemini_scan (buffer @ t) cursor =
            (gemini_object (substring buffer start (e + 1)) @ ys @ zs, c + k')"
          using lt indexOf_append [OF Some] scan_end_append [OF e] ih sub
          by (simp add: gemini_scan.simps [of "buffer @ t" cursor])
        moreover have "gemini_scan buffer cursor =
            (gemini_object (substring buffer start (e + 1)) @ ys, c)"
          using lt Some e r by (simp add: gemini_scan.simps [of buffer cursor])
        ultimately show ?thesis using z by simp
      qed
    qed
  qed
qed

lemma drop_drop_append:
  assumes "k \<le> length xs"
  shows "drop k' (drop k xs @ ys) = drop (k + k') (xs @ ys)"
proof -
  from assms have a: "drop k (xs @ ys) = drop k xs @ ys" by simp
  have "drop (k + k') (xs @ ys) = drop k' (drop k (xs @ ys))"
    by (simp only: drop_drop add.commute)
  then show ?thesis by (simp only: a)
qed

lemma gemini_loop_Cons:
  "gemini_loop b (c # cs) =
     (case gemini_scan (b @ c) 0 of (ys, k) \<Rightarrow> ys @ gemini_loop (drop k (b @ c)) cs)"
  by (cases "gemini_scan (b @ c) 0") (simp add: Let_def)

lemma gemini_loop_merge:
  "gemini_loop b (c1 # c2 # cs) = gemini_loop b ((c1 @ c2) # cs)"
proof -
  define B where "B = b @ c1"
  obtain ys k where y: "gemini_scan B 0 = (ys, k)" by (cases "gemini_scan B 0")
  obtain zs k' where z: "gemini_scan (drop k B @ c2) 0 = (zs, k')"
    by (cases "gemini_scan (drop k B @ c2) 0")
  from y have kb: "k \<le> length B" using gemini_scan_cursor by blast
  have whole: "gemini_scan (B @ c2) 0 = (ys @ zs, k + k')"
    using gemini_scan_append [of 0 B c2] y z by simp
  have dr: "drop k' (drop k B @ c2) = drop (k + k') (B @ c2)"
    using kb by (rule drop_drop_append)
  have "gemini_loop b (c1 # c2 # cs) = ys @ gemini_loop (drop k B) (c2 # cs)"
    by (simp only: gemini_loop_Cons [of b c1] B_def [symmetric] y prod.case)
  also have "\<dots> = ys @ zs @ gemini_loop (drop (k + k') (B @ c2)) cs"
    by (simp only: gemini_loop_Cons [of "drop k B" c2] z prod.case dr)
  finally have lhs: "gemini_loop b (c1 # c2 # cs) =
      ys @ zs @ gemini_loop (drop (k + k') (B @ c2)) cs" .
  have eq: "b @ (c1 @ c2) = B @ c2" by (simp add: B_def)
  have rhs: "gemini_loop b ((c1 @ c2) # cs) =
      ys @ zs @ gemini_loop (drop (k + k') (B @ c2)) cs"
    by (simp only: gemini_loop_Cons [of b "c1 @ c2"] eq whole prod.case append_assoc)
  show ?thesis by (simp only: lhs rhs)
qed


text \<open>A run of chunks is read like their concatenation in one chunk.\<close>

lemma openai_loop_concat: "openai_loop b (c # cs) = openai_loop b [concat (c # cs)]"
proof (induction cs arbitrary: c)
  case Nil
  show ?case by simp
next
  case (Cons d cs)
  have "openai_loop b (c # d # cs) = openai_loop b ((c @ d) # cs)"
    by (rule openai_loop_merge)
  also have "\<dots> = openai_loop b [concat ((c @ d) # cs)]" by (rule Cons.IH)
  finally show ?case by simp
qed

lemma anthropic_loop_concat: "anthropic_loop b (c # cs) = anthropic_loop b [concat (c # cs)]"
proof (induction cs arbitrary: c)
  case Nil
  show ?case by simp
next
  case (Cons d cs)
  have "anthropic_loop b (c # d # cs) = anthropic_loop b ((c @ d) # cs)"
    by (rule anthropic_loop_merge)
  also have "\<dots> = anthropic_loop b [concat ((c @ d) # cs)]" by (rule Cons.IH)
  finally show ?case by simp
qed

lemma gemini_loop_concat: "gemini_loop b (c # cs) = gemini_loop b [concat (c # cs)]"
proof (induction cs arbitrary: c)
  case Nil
  show ?case by simp
next
  case (Cons d cs)
  have "gemini_loop b (c # d # cs) = gemini_loop b ((c @ d) # cs)"
    by (rule gemini_loop_merge)
  also have "\<dots> = gemini_loop b [concat ((c @ d) # cs)]" by (rule Cons.IH)
  finally show ?case by simp
qed

lemma openai_loop_whole: "openai_loop [] ts = openai_loop [] [concat ts]"
proof (cases ts)
  case Nil
  then show ?thesis by simp
next
  case (Cons c cs)
  then show ?thesis by (simp only: openai_loop_concat [of "[]" c cs])
qed

lemma anthropic_loop_whole: "anthropic_loop [] ts = anthropic_loop [] [concat ts]"
proof (cases ts)
  case Nil
  then show ?thesis by simp
next
  case (Cons c cs)
  then show ?thesis by (simp only: anthropic_loop_concat [of "[]" c cs])
qed

lemma gemini_scan_empty: "gemini_scan [] 0 = ([], 0)"
  by (simp add: gemini_scan.simps [of "[]" 0])

lemma gemini_loop_whole: "gemini_loop [] ts = gemini_loop [] [concat ts]"
proof (cases ts)
  case Nil
  then show ?thesis by (simp add: gemini_scan_empty)
next
  case (Cons c cs)
  then show ?thesis by (simp only: gemini_loop_concat [of "[]" c cs])
qed

text \<open>The decoder gives the same text however the bytes are cut into chunks.\<close>

lemma decode_append:
  "decode step st (a @ b) =
     (case decode step st a of (s1, t) \<Rightarrow>
        (case decode step s1 b of (s2, u) \<Rightarrow> (s2, t @ u)))"
  by (induction a arbitrary: st) (auto split: prod.splits)

lemma concat_decode_chunks:
  "concat (decode_chunks step st cs) = snd (decode step st (concat cs))"
proof (induction cs arbitrary: st)
  case Nil
  show ?case by simp
next
  case (Cons c cs)
  obtain s1 t where d: "decode step st c = (s1, t)" by (cases "decode step st c")
  obtain s2 u where e: "decode step s1 (concat cs) = (s2, u)"
    by (cases "decode step s1 (concat cs)")
  from Cons [of s1] d e show ?case by (simp add: decode_append)
qed

lemma decode_chunks_single: "decode_chunks step st [c] = [snd (decode step st c)]"
  by (cases "decode step st c") simp

lemma concat_decode_chunks_whole:
  "concat (decode_chunks step st cs) = concat (decode_chunks step st [concat cs])"
  by (simp only: concat_decode_chunks decode_chunks_single concat.simps append_Nil2)

section \<open>Lines completed and lines left over\<close>

lemma split_nl_no_nl: "0xA \<notin> set l \<Longrightarrow> split_nl l = [l]"
  by (induction l) auto

lemma split_nl_line: "0xA \<notin> set l \<Longrightarrow> split_nl (l @ 0xA # post) = l # split_nl post"
  by (induction l) auto

lemma split_nl_snoc_nl: "\<exists>y ys. split_nl (x @ [0xA]) = (y # ys) @ [[]]"
proof (induction x)
  case Nil
  show ?case by simp
next
  case (Cons c x)
  then obtain y ys where "split_nl (x @ [0xA]) = (y # ys) @ [[]]" by blast
  then show ?case by (cases "c = 0xA") auto
qed

lemma split_nl_terminated: "p = [] \<or> last p = 0xA \<Longrightarrow> last (split_nl p) = []"
proof (cases "p = []")
  case True
  then show ?thesis by simp
next
  case False
  assume "p = [] \<or> last p = 0xA"
  with False have "p = butlast p @ [0xA]" by (metis append_butlast_last_id)
  moreover obtain y ys where "split_nl (butlast p @ [0xA]) = (y # ys) @ [[]]"
    using split_nl_snoc_nl by blast
  ultimately have "split_nl p = (y # ys) @ [[]]" by simp
  then show ?thesis by simp
qed

lemma butlast_split_nl_residual:
  assumes "0xA \<notin> set r" and "p = [] \<or> last p = 0xA"
  shows "butlast (split_nl (p @ r)) = butlast (split_nl p)"
proof -
  from assms(2) have t: "last (split_nl p) = []" by (rule split_nl_terminated)
  have "butlast (split_nl (p @ r)) = butlast (split_nl p) @ butlast (split_nl (last (split_nl p) @ r))"
    by (rule butlast_split_nl_append)
  also have "last (split_nl p) @ r = r" by (simp add: t)
  also have "split_nl r = [r]" using assms(1) by (rule split_nl_no_nl)
  finally show ?thesis by simp
qed

lemma openai_loop_single: "openai_loop [] [t] = openai_lines (butlast (split_nl t))"
  by (cases "openai_lines (butlast (split_nl t))") simp

lemma anthropic_loop_single: "anthropic_loop [] [t] = anthropic_lines (butlast (split_nl t))"
  by (cases "anthropic_lines (butlast (split_nl t))") simp

lemma gemini_loop_single: "gemini_loop [] [t] = fst (gemini_scan t 0)"
  by (cases "gemini_scan t 0") (simp add: Let_def)

lemma lit_done_nonempty: "lit ''data: [DONE]'' \<noteq> []"
  by (simp add: lit_def)

lemma openai_lines_done:
  "trim l = lit ''data: [DONE]'' \<Longrightarrow> openai_lines (xs @ l # ys) = (fst (openai_lines xs), True)"
  by (cases "openai_lines xs") (simp add: openai_lines_append lit_done_nonempty)

section \<open>Evaluation of the named inputs\<close>

lemma hello_line_facts:
  "trim hello_line \<noteq> []" "trim hello_line \<noteq> lit ''data: [DONE]''"
  "startsWith hello_line (lit ''data: '')" "0xA \<notin> set hello_line"
  by code_simp+

lemma hello_line_data: "openai_data hello_line = [Val (JStr (lit ''Hello''))]"
  by code_simp

lemma done_line_facts: "trim done_line = lit ''data: [DONE]''" "0xA \<notin> set done_line"
  by code_simp+

lemma trim_empty: "trim [] = []"
  by (simp add: trim_def)

lemma hello_split:
  "split_nl (hello_line @ NL @ NL @ done_line @ NL @ NL) = [hello_line, [], done_line, [], []]"
  by (simp add: NL_def split_nl_line hello_line_facts done_line_facts)

lemma hello_example:
  "openai_loop [] [hello_line @ NL @ NL @ done_line @ NL @ NL] = ([Val (JStr (lit ''Hello''))], True)"
  by (simp add: hello_split hello_line_facts hello_line_data done_line_facts trim_empty
        lit_done_nonempty)

lemma done_general:
  assumes "trim l = lit ''data: [DONE]''" "0xA \<notin> set l" "pre = [] \<or> last pre = 0xA"
    "concat cs = pre @ l @ NL @ post"
  shows "openai_loop [] cs = (fst (openai_loop [] [pre]), True)"
proof -
  from assms(3) have t: "last (split_nl pre) = []" by (rule split_nl_terminated)
  have "butlast (split_nl (pre @ (l @ NL @ post))) =
      butlast (split_nl pre) @ butlast (split_nl (last (split_nl pre) @ (l @ NL @ post)))"
    by (rule butlast_split_nl_append)
  also have "last (split_nl pre) @ (l @ NL @ post) = l @ 0xA # post"
    by (simp add: t NL_def)
  also have "split_nl (l @ 0xA # post) = l # split_nl post"
    using assms(2) by (rule split_nl_line)
  also have "butlast (l # split_nl post) = l # butlast (split_nl post)"
    by (simp add: split_nl_nonempty)
  finally have "butlast (split_nl (concat cs)) = butlast (split_nl pre) @ l # butlast (split_nl post)"
    by (simp only: assms(4))
  then have "openai_loop [] [concat cs] = (fst (openai_lines (butlast (split_nl pre))), True)"
    using assms(1) by (simp only: openai_loop_single openai_lines_done)
  then show ?thesis by (simp only: openai_loop_whole [of cs] openai_loop_single)
qed

lemma braces_scan: "gemini_scan braces_example 0 = ([Val (JStr (lit ''a { b } c''))], 61)"
  by code_simp

lemma backslash_scan: "scan_end backslash_payload 0 False 0 = Some 73"
  by code_simp

lemma backslash_len: "length backslash_payload = 76"
  by code_simp

lemma backslash_obj: "gemini_object backslash_payload = [Val (JStr [0x5C])]"
  by code_simp

lemma backslash_scan2: "gemini_scan backslash_payload 0 = ([], 74)"
  by code_simp

lemma two_ph: "constructPrompt two_placeholders (lit ''x'') = lit ''Answer in en. Title in {{LANGUAGE}}.'' @ NL @ NL @ lit ''---'' @ NL @ NL @ lit ''x''"
  by code_simp

lemma preferred_find: "preferred ps models = find (\<lambda>pref. pref \<in> set models) ps"
  by (induction ps) simp_all

lemma hd_filter_find:
  "(if filter P xs \<noteq> [] then hd (filter P xs) else d)
     = (case find P xs of Some m \<Rightarrow> m | None \<Rightarrow> d)"
  by (induction xs) (auto split: if_splits)

lemma pick_from_find:
  "pick_from ps models =
     (case find (\<lambda>pref. pref \<in> set models) ps of
        Some pref \<Rightarrow> pref
      | None \<Rightarrow>
          (case find (\<lambda>m. \<exists>k\<in>set goodKeywords. includes_str m k) models of
             Some m \<Rightarrow> m
           | None \<Rightarrow> hd models))"
proof -
  have c: "(let candidates = filter Q models
            in if length candidates > 0 then hd candidates else hd models)
      = (case find Q models of Some m \<Rightarrow> m | None \<Rightarrow> hd models)" for Q
    using hd_filter_find [of Q models "hd models"] by (simp add: Let_def)
  have q: "(\<lambda>m. list_ex (\<lambda>k. includes_str m k) goodKeywords)
      = (\<lambda>m. \<exists>k\<in>set goodKeywords. includes_str m k)"
    by (simp add: list_ex_iff)
  show ?thesis
    unfolding pick_from_def c q preferred_find by (rule refl)
qed

lemma preferences_at_own:
  "provider \<notin> set object_prototype_names \<Longrightarrow>
   (case preferences_at provider of
      NoProperty \<Rightarrow> Inr (pick_from [] models)
    | OwnList l \<Rightarrow> Inr (pick_from l models)
    | InheritedObject \<Rightarrow> Inl TypeError)
   = (Inr (pick_from (case map_of preferences provider of None \<Rightarrow> [] | Some l \<Rightarrow> l) models)
        :: exception + jstring)"
  by (simp add: preferences_at_def split: option.splits)

lemma pick_general:
  assumes "models \<noteq> []" and "provider \<notin> set object_prototype_names"
  shows "pickBestModel models provider =
     Inr (if provider = lit ''chrome'' then lit ''gemini-nano''
          else case find (\<lambda>pref. pref \<in> set models)
                      (case map_of preferences provider of None \<Rightarrow> [] | Some l \<Rightarrow> l) of
                 Some pref \<Rightarrow> pref
               | None \<Rightarrow>
                   (case find (\<lambda>m. \<exists>k\<in>set goodKeywords. includes_str m k) models of
                      Some m \<Rightarrow> m
                    | None \<Rightarrow> hd models))"
proof (cases "provider = lit ''chrome''")
  case True
  with assms(1) show ?thesis by (simp add: pickBestModel_def)
next
  case False
  have "pickBestModel models provider =
      Inr (pick_from (case map_of preferences provider of None \<Rightarrow> [] | Some l \<Rightarrow> l) models)"
    using assms(1) False preferences_at_own [OF assms(2), of models]
    by (simp add: pickBestModel_def)
  with False show ?thesis by (simp only: pick_from_find if_False)
qed

lemma pick_examples:
  "pickBestModel [lit ''gpt-4o'', lit ''gpt-4o-mini''] (lit ''openai'') = Inr (lit ''gpt-4o-mini'')"
  "pickBestModel [lit ''gpt-4o-mini'', lit ''gpt-4o''] (lit ''openai'') = Inr (lit ''gpt-4o-mini'')"
  by code_simp+

lemma other_models_facts:
  "pickBestModel other_models (lit ''other'') = Inr (lit ''x-turbo'')"
  "spec_keyword_priority goodKeywords other_models = Some (lit ''y-flash'')"
  "pickBestModel other_models (lit ''constructor'') = Inl TypeError"
  by code_simp+

lemma claude_models_facts:
  "claude_models \<noteq> []" "lit ''anthropic'' \<notin> set object_prototype_names"
  by code_simp+

lemma claude_models_eval:
  "(if lit ''anthropic'' = lit ''chrome'' then lit ''gemini-nano''
      else case find (\<lambda>pref. pref \<in> set claude_models)
                  (case map_of preferences (lit ''anthropic'') of None \<Rightarrow> [] | Some l \<Rightarrow> l) of
             Some pref \<Rightarrow> pref
           | None \<Rightarrow>
               (case find (\<lambda>m. \<exists>k\<in>set goodKeywords. includes_str m k) claude_models of
                  Some m \<Rightarrow> m
                | None \<Rightarrow> hd claude_models)) = lit ''claude-3-haiku-20240307''"
  by code_simp

lemma refreshes_burst:
  "burst (ev # evs) \<Longrightarrow> (case pending of None \<Rightarrow> True | Some (due, k) \<Rightarrow> fst ev < due) \<Longrightarrow>
   refreshes provider pending (ev # evs) =
     (if key_gate provider (snd (last (ev # evs)))
      then [(fst (last (ev # evs)) + 1000, snd (last (ev # evs)))] else [])"
proof (induction evs arbitrary: ev pending)
  case Nil
  then show ?case by (auto simp: effect_def split: option.splits)
next
  case (Cons ev' evs)
  from Cons.prems(1) have b: "burst (ev' # evs)" and lt: "fst ev' < fst ev + 1000" by simp_all
  from Cons.prems(2) have fired: "fst (effect provider pending ev) = []"
    by (auto simp: effect_def split: option.splits)
  have p: "(case snd (effect provider pending ev) of None \<Rightarrow> True | Some (due, k) \<Rightarrow> fst ev' < due)"
    using lt by (simp add: effect_def)
  have "refreshes provider pending (ev # ev' # evs)
      = refreshes provider (snd (effect provider pending ev)) (ev' # evs)"
    using fired by (cases "effect provider pending ev") simp
  also have "\<dots> = (if key_gate provider (snd (last (ev' # evs)))
      then [(fst (last (ev' # evs)) + 1000, snd (last (ev' # evs)))] else [])"
    using b p by (rule Cons.IH)
  finally show ?case by simp
qed

lemma typing_burst_facts:
  "typing_burst \<noteq> []" "burst typing_burst" "key_gate (lit ''openai'') (lit ''sk-abcde'')"
  "fst (last typing_burst) + 1000 = 1400" "snd (last typing_burst) = lit ''sk-abcde''"
  by code_simp+

section \<open>Requests made and failures of the transport\<close>

lemma lit_append: "lit (a @ b) = lit a @ lit b"
  by (simp add: lit_def)

lemma summarize_with_sent: "sent (summarize_with name reader fetch req) = [req]"
  by (simp add: summarize_with_def split: sum.splits option.splits prod.splits)

lemma summarize_with_not_ok:
  "fetch req = Inr res \<Longrightarrow> \<not> res_ok res \<Longrightarrow>
   summarize_with name reader fetch req =
     \<lparr>sent = [req], fragments = [],
      outcome = Threw (name @ lit '' API Error: '' @ decimal (res_status res) @ lit '' '' @ res_text res)\<rparr>"
  by (simp add: summarize_with_def)

lemma summarize_with_no_body:
  "fetch req = Inr res \<Longrightarrow> res_ok res \<Longrightarrow> res_body res = None \<Longrightarrow>
   summarize_with name reader fetch req =
     \<lparr>sent = [req], fragments = [], outcome = Threw (lit ''No response body'')\<rparr>"
  by (simp add: summarize_with_def)

lemma summarize_with_failure:
  assumes "fetch req = Inr res" "\<not> res_ok res \<or> res_body res = None"
  shows "fragments (summarize_with name reader fetch req) = []
    \<and> outcome (summarize_with name reader fetch req) =
        Threw (if \<not> res_ok res
               then name @ lit '' API Error: '' @ decimal (res_status res) @ lit '' '' @ res_text res
               else lit ''No response body'')"
proof (cases "res_ok res")
  case False
  with assms(1) show ?thesis by (simp add: summarize_with_not_ok)
next
  case True
  with assms show ?thesis by (simp add: summarize_with_no_body)
qed

lemma api_error_names:
  "lit ''OpenAI'' @ lit '' API Error: '' = lit ''OpenAI API Error: ''"
  "lit ''Anthropic'' @ lit '' API Error: '' = lit ''Anthropic API Error: ''"
  "lit ''Gemini'' @ lit '' API Error: '' = lit ''Gemini API Error: ''"
  by (simp_all add: lit_def)

lemma no_body_facts:
  "res_ok no_body" "res_body no_body = None" "res_status no_body = 204" "res_text no_body = lit ''gone''"
  "\<not> includes_str (lit ''No response body'') (decimal 204)"
  "\<not> includes_str (lit ''No response body'') (lit ''gone'')"
  by code_simp+

lemma unauthorized_facts:
  "\<not> res_ok unauthorized" "res_status unauthorized = 401" "res_text unauthorized = lit ''denied''"
  "lit ''OpenAI API Error: '' @ decimal 401 @ lit '' '' @ lit ''denied'' = lit ''OpenAI API Error: 401 denied''"
  by code_simp+

lemma default_model_fields:
  assumes "model options = []"
  shows "body_field (openai_request options txt) (lit ''model'') = Val (JStr (lit ''gpt-4o-mini''))"
    and "body_field (anthropic_request options txt) (lit ''model'')
          = Val (JStr (lit ''claude-3-5-sonnet-20240620''))"
    and "req_url (gemini_request options txt)
          = lit ''https://generativelanguage.googleapis.com/v1beta/models/gemini-1.5-pro:streamGenerateContent?key=''
            @ apiKey options"
proof -
  have k: "lit ''messages'' \<noteq> lit ''model''" "lit ''stream'' \<noteq> lit ''model''"
    "lit ''max_tokens'' \<noteq> lit ''model''"
    by (simp_all add: lit_def)
  show "body_field (openai_request options txt) (lit ''model'') = Val (JStr (lit ''gpt-4o-mini''))"
    using assms k by (simp add: body_field_def openai_request_def lookup_key_def Let_def)
  show "body_field (anthropic_request options txt) (lit ''model'')
          = Val (JStr (lit ''claude-3-5-sonnet-20240620''))"
    using assms k by (simp add: body_field_def anthropic_request_def lookup_key_def Let_def)
  have u: "lit ''https://generativelanguage.googleapis.com/v1beta/models/'' @ lit ''gemini-1.5-pro''
      @ lit '':streamGenerateContent?key=''
      = lit ''https://generativelanguage.googleapis.com/v1beta/models/gemini-1.5-pro:streamGenerateContent?key=''"
    by (simp add: lit_def)
  show "req_url (gemini_request options txt)
          = lit ''https://generativelanguage.googleapis.com/v1beta/models/gemini-1.5-pro:streamGenerateContent?key=''
            @ apiKey options"
    using assms by (simp add: gemini_request_def Let_def u [symmetric])
qed

lemma braces_bytes: "decode latin1 () (braces_head @ braces_tail) = ((), braces_example)"
  by code_simp

lemma braces_whole:
  "gemini_read latin1 () \<lparr>chunks = [braces_head @ braces_tail], failure = None\<rparr>
     = ([Val (JStr (lit ''a { b } c''))], Completed)"
  by (simp only: gemini_read_def body.simps decode_chunks_single braces_bytes snd_conv
        gemini_loop_single braces_scan fst_conv finish_def if_False option.case)

lemma gemini_all_objects: "gemini_loop [] cs = fst (gemini_scan (concat cs) 0)"
  by (simp only: gemini_loop_whole [of cs] gemini_loop_single)

section \<open>The claims\<close>

text \<open>
  C1. For each of the three decoders (OpenAI and Anthropic, line-delimited; Gemini,
  bare array), for every payload and every way of cutting its bytes into chunks,
  reading the chunks one at a time yields the same fragments, in the same order and
  with the same end, as reading the whole payload as a single chunk.
\<close>

theorem chunking_invariance:
  "openai_read step st \<lparr>chunks = cs, failure = f\<rparr>
     = openai_read step st \<lparr>chunks = [concat cs], failure = f\<rparr>
   \<and> anthropic_read step st \<lparr>chunks = cs, failure = f\<rparr>
     = anthropic_read step st \<lparr>chunks = [concat cs], failure = f\<rparr>
   \<and> gemini_read step st \<lparr>chunks = cs, failure = f\<rparr>
     = gemini_read step st \<lparr>chunks = [concat cs], failure = f\<rparr>"
proof -
  have o: "openai_loop [] (decode_chunks step st cs)
      = openai_loop [] (decode_chunks step st [concat cs])"
    using openai_loop_whole [of "decode_chunks step st cs"]
      openai_loop_whole [of "decode_chunks step st [concat cs]"]
    by (simp only: concat_decode_chunks_whole [of step st cs])
  have a: "anthropic_loop [] (decode_chunks step st cs)
      = anthropic_loop [] (decode_chunks step st [concat cs])"
    using anthropic_loop_whole [of "decode_chunks step st cs"]
      anthropic_loop_whole [of "decode_chunks step st [concat cs]"]
    by (simp only: concat_decode_chunks_whole [of step st cs])
  have g: "gemini_loop [] (decode_chunks step st cs)
      = gemini_loop [] (decode_chunks step st [concat cs])"
    using gemini_loop_whole [of "decode_chunks step st cs"]
      gemini_loop_whole [of "decode_chunks step st [concat cs]"]
    by (simp only: concat_decode_chunks_whole [of step st cs])
  show ?thesis
    by (simp only: openai_read_def anthropic_read_def gemini_read_def body.simps o a g)
qed

theorem chunking_invariance_witness:
  "gemini_read latin1 () \<lparr>chunks = [braces_head, braces_tail], failure = None\<rparr>
     = ([Val (JStr (lit ''a { b } c''))], Completed)"
proof -
  have c: "concat [braces_head, braces_tail] = braces_head @ braces_tail" by simp
  from chunking_invariance [of latin1 "()" "[braces_head, braces_tail]" None,
      THEN conjunct2, THEN conjunct2]
  show ?thesis by (simp only: c braces_whole)
qed

text \<open>
  C2, as the claim states it, fails for two of the three network providers: the
  Anthropic and the Gemini \<open>validateKey\<close> make no request at all, and accept a
  credential that the network would refuse on every request.
\<close>

theorem validateKey_counterexample:
  "anthropic_validateKey (serve unauthorized) (lit ''sk-ant-none'') = (True, [])
   \<and> gemini_validateKey (serve unauthorized) (lit ''no such key'') = (True, [])"
  by code_simp

text \<open>
  C2, amended. The OpenAI \<open>validateKey\<close> fails at once on a credential that does not
  start with \<open>sk-\<close>, without a request; on any other credential it makes one GET
  request for the model list with the credential as bearer token, and its answer is
  the \<open>ok\<close> of the response, or false when the request is rejected. The Anthropic
  \<open>validateKey\<close> is the test that the credential starts with \<open>sk-ant-\<close>, and the
  Gemini one the test that it is longer than 10 code units; neither makes a request.
\<close>

theorem validateKey_by_provider:
  "(startsWith key (lit ''sk-'') \<longrightarrow>
      openai_validateKey fetch key =
        ((case fetch (openai_models_request key) of Inl e \<Rightarrow> False | Inr res \<Rightarrow> res_ok res),
         [openai_models_request key])
      \<and> req_method (openai_models_request key) = lit ''GET''
      \<and> map_of (req_headers (openai_models_request key)) (lit ''Authorization'')
          = Some (lit ''Bearer '' @ key))
   \<and> (\<not> startsWith key (lit ''sk-'') \<longrightarrow> openai_validateKey fetch key = (False, []))
   \<and> anthropic_validateKey fetch key = (startsWith key (lit ''sk-ant-''), [])
   \<and> gemini_validateKey fetch key = (10 < length key, [])"
  by (simp add: openai_validateKey_def anthropic_validateKey_def gemini_validateKey_def
        openai_models_request_def split: sum.splits)

theorem validateKey_by_provider_witness:
  "startsWith (lit ''sk-none'') (lit ''sk-'')
   \<and> openai_validateKey (serve unauthorized) (lit ''sk-none'')
       = (False, [openai_models_request (lit ''sk-none'')])
   \<and> \<not> startsWith (lit ''none'') (lit ''sk-'')
   \<and> openai_validateKey (serve unauthorized) (lit ''none'') = (False, [])"
proof -
  have a: "startsWith (lit ''sk-none'') (lit ''sk-'')" by code_simp
  have b: "\<not> startsWith (lit ''none'') (lit ''sk-'')" by code_simp
  have c: "(case serve unauthorized (openai_models_request (lit ''sk-none'')) of
              Inl e \<Rightarrow> False | Inr res \<Rightarrow> res_ok res) = False"
    by (simp add: serve_def unauthorized_def)
  from validateKey_by_provider [of "lit ''sk-none''" "serve unauthorized", THEN conjunct1, rule_format, OF a]
  have d: "openai_validateKey (serve unauthorized) (lit ''sk-none'')
       = (False, [openai_models_request (lit ''sk-none'')])"
    by (simp only: c)
  from validateKey_by_provider [of "lit ''none''" "serve unauthorized", THEN conjunct2, THEN conjunct1, rule_format, OF b]
  have e: "openai_validateKey (serve unauthorized) (lit ''none'') = (False, [])" .
  show ?thesis by (intro conjI) (rule a b d e)+
qed

text \<open>
  The example of C3: the braces inside the text do not count, and the object yields
  its text as the one fragment.
\<close>

lemma gemini_braces_example:
  "gemini_loop [] [braces_example] = [Val (JStr (lit ''a { b } c''))]"
  by (simp only: gemini_loop_single braces_scan fst_conv)

text \<open>
  C3. In the Gemini decoder a brace inside a quoted string must never count. The
  scan takes a quote for escaped whenever a backslash stands before it, also when
  that backslash is itself the escaped one. On the object
  \<open>{"candidates":[{"content":{"parts":[{"text":"\\"}]}}],"modelVersion":"}}}}"}\<close>,
  76 code units long, whose text is one backslash, the closing quote of the text is
  missed, and the scan ends on a brace at index 73, inside the last string: the
  fragment is lost, although the object parses and holds the text.
\<close>

theorem gemini_quoted_brace_counted:
  "length backslash_payload = 76
   \<and> scan_end backslash_payload 0 False 0 = Some 73
   \<and> gemini_loop [] [backslash_payload] = []
   \<and> gemini_object backslash_payload = [Val (JStr [0x5C])]"
  by (simp only: gemini_loop_single backslash_len backslash_scan backslash_scan2 backslash_obj
        fst_conv simp_thms)

text \<open>
  C4. For the OpenAI decoder, the input
  \<open>data: {"choices":[{"delta":{"content":"Hello"}}]}\n\ndata: [DONE]\n\n\<close> yields
  exactly the one fragment \<open>Hello\<close>; and once a line that is \<open>data: [DONE]\<close> after
  trimming has been read, the generator returns at once: the fragments are those of
  the text before that line, whatever follows it in the same chunk or in later ones.
\<close>

theorem openai_done_terminates:
  "openai_loop [] [hello_line @ NL @ NL @ done_line @ NL @ NL] = ([Val (JStr (lit ''Hello''))], True)
   \<and> (\<forall>cs pre l post.
        trim l = lit ''data: [DONE]'' \<and> 0xA \<notin> set l \<and> (pre = [] \<or> last pre = 0xA)
        \<and> concat cs = pre @ l @ NL @ post
        \<longrightarrow> openai_loop [] cs = (fst (openai_loop [] [pre]), True))"
proof (intro conjI allI impI)
  show "openai_loop [] [hello_line @ NL @ NL @ done_line @ NL @ NL]
      = ([Val (JStr (lit ''Hello''))], True)"
    by (rule hello_example)
next
  fix cs pre l post
  assume h: "trim l = lit ''data: [DONE]'' \<and> 0xA \<notin> set l \<and> (pre = [] \<or> last pre = 0xA)
        \<and> concat cs = pre @ l @ NL @ post"
  show "openai_loop [] cs = (fst (openai_loop [] [pre]), True)"
    by (rule done_general [OF h [THEN conjunct1] h [THEN conjunct2, THEN conjunct1]
          h [THEN conjunct2, THEN conjunct2, THEN conjunct1]
          h [THEN conjunct2, THEN conjunct2, THEN conjunct2]])
qed

theorem openai_done_terminates_witness:
  "trim done_line = lit ''data: [DONE]'' \<and> 0xA \<notin> set done_line
   \<and> concat [hello_line @ NL, NL @ done_line, NL @ hello_line @ NL]
       = (hello_line @ NL @ NL) @ done_line @ NL @ (hello_line @ NL)
   \<and> openai_loop [] [hello_line @ NL, NL @ done_line, NL @ hello_line @ NL]
       = ([Val (JStr (lit ''Hello''))], True)"
proof -
  have a: "trim done_line = lit ''data: [DONE]''" and a': "0xA \<notin> set done_line"
    by (rule done_line_facts)+
  have b: "hello_line @ NL @ NL = [] \<or> last (hello_line @ NL @ NL) = 0xA" by (simp add: NL_def)
  have c: "concat [hello_line @ NL, NL @ done_line, NL @ hello_line @ NL]
      = (hello_line @ NL @ NL) @ done_line @ NL @ (hello_line @ NL)" by simp
  have "split_nl (hello_line @ NL @ NL) = [hello_line, [], []]"
    by (simp add: NL_def split_nl_line hello_line_facts)
  then have d: "openai_loop [] [hello_line @ NL @ NL] = ([Val (JStr (lit ''Hello''))], False)"
    by (simp add: openai_loop_single hello_line_facts hello_line_data trim_empty)
  have h: "trim done_line = lit ''data: [DONE]'' \<and> 0xA \<notin> set done_line
      \<and> (hello_line @ NL @ NL = [] \<or> last (hello_line @ NL @ NL) = 0xA)
      \<and> concat [hello_line @ NL, NL @ done_line, NL @ hello_line @ NL]
          = (hello_line @ NL @ NL) @ done_line @ NL @ (hello_line @ NL)"
    by (intro conjI) (rule a a' b c)+
  have "openai_loop [] [hello_line @ NL, NL @ done_line, NL @ hello_line @ NL]
      = (fst (openai_loop [] [hello_line @ NL @ NL]), True)"
    by (rule openai_done_terminates [THEN conjunct2, rule_format, OF h])
  then have e: "openai_loop [] [hello_line @ NL, NL @ done_line, NL @ hello_line @ NL]
      = ([Val (JStr (lit ''Hello''))], True)"
    by (simp only: d fst_conv)
  show ?thesis by (intro conjI) (rule a a' c e)+
qed

text \<open>
  C5, as the claim states it, fails: a final complete \<open>data:\<close> line that no line
  feed follows is never decoded. The line decodes to \<open>Hello\<close> on its own, and the
  stream that ends with it yields nothing.
\<close>

theorem residual_line_counterexample:
  "openai_loop [] [hello_line] = ([], False) \<and> openai_data hello_line = [Val (JStr (lit ''Hello''))]"
  by (simp add: split_nl_no_nl hello_line_facts hello_line_data)

text \<open>
  C5, amended. For the two line decoders, when the reader is done the text left
  after the last line feed is dropped, not flushed: for a payload \<open>p @ r\<close> cut into
  chunks in any way, where \<open>p\<close> is empty or ends with a line feed and \<open>r\<close> holds
  none, the output is the decoding of the lines of \<open>p\<close>. It is the decoding of the
  whole payload when the payload ends with a line feed. The bare-array decoder has
  no flush step either: however the payload is cut, its output is exactly what one
  brace scan of the whole payload yields, and whatever that scan leaves in the
  buffer is dropped when the reader is done.
\<close>

theorem residual_discarded:
  "0xA \<notin> set r \<and> (p = [] \<or> last p = 0xA) \<and> concat cs = p @ r \<longrightarrow>
     openai_loop [] cs = openai_lines (butlast (split_nl p))
     \<and> anthropic_loop [] cs = anthropic_lines (butlast (split_nl p))
     \<and> gemini_loop [] cs = fst (gemini_scan (concat cs) 0)"
proof
  assume h: "0xA \<notin> set r \<and> (p = [] \<or> last p = 0xA) \<and> concat cs = p @ r"
  then have "butlast (split_nl (concat cs)) = butlast (split_nl p)"
    using butlast_split_nl_residual [of r p] by simp
  then have l: "openai_loop [] cs = openai_lines (butlast (split_nl p))
     \<and> anthropic_loop [] cs = anthropic_lines (butlast (split_nl p))"
    by (simp only: openai_loop_whole [of cs] anthropic_loop_whole [of cs]
          openai_loop_single anthropic_loop_single)
  show "openai_loop [] cs = openai_lines (butlast (split_nl p))
     \<and> anthropic_loop [] cs = anthropic_lines (butlast (split_nl p))
     \<and> gemini_loop [] cs = fst (gemini_scan (concat cs) 0)"
    by (intro conjI) (rule l [THEN conjunct1] l [THEN conjunct2] gemini_all_objects)+
qed

theorem residual_discarded_witness:
  "0xA \<notin> set hello_line
   \<and> concat [hello_line, NL @ hello_line] = (hello_line @ NL) @ hello_line
   \<and> openai_loop [] [hello_line, NL @ hello_line] = ([Val (JStr (lit ''Hello''))], False)"
proof -
  have a: "0xA \<notin> set hello_line" by (rule hello_line_facts)
  have b: "hello_line @ NL = [] \<or> last (hello_line @ NL) = 0xA" by (simp add: NL_def)
  have c: "concat [hello_line, NL @ hello_line] = (hello_line @ NL) @ hello_line" by simp
  have "split_nl (hello_line @ NL) = [hello_line, []]"
    by (simp add: NL_def split_nl_line hello_line_facts)
  then have d: "openai_lines (butlast (split_nl (hello_line @ NL)))
      = ([Val (JStr (lit ''Hello''))], False)"
    by (simp add: hello_line_facts hello_line_data)
  have h: "0xA \<notin> set hello_line \<and> (hello_line @ NL = [] \<or> last (hello_line @ NL) = 0xA)
      \<and> concat [hello_line, NL @ hello_line] = (hello_line @ NL) @ hello_line"
    by (intro conjI) (rule a b c)+
  have "openai_loop [] [hello_line, NL @ hello_line] = openai_lines (butlast (split_nl (hello_line @ NL)))"
    by (rule residual_discarded [rule_format, OF h, THEN conjunct1])
  then have e: "openai_loop [] [hello_line, NL @ hello_line] = ([Val (JStr (lit ''Hello''))], False)"
    by (simp only: d)
  show ?thesis by (intro conjI) (rule a c e)+
qed

text \<open>
  C6. The prompt builder must put the language in the place of every
  \<open>{{LANGUAGE}}\<close> of the template. \<open>replace\<close> with a string pattern replaces the
  first occurrence only: with the custom prompt
  \<open>Answer in {{LANGUAGE}}. Title in {{LANGUAGE}}.\<close> and the language \<open>en\<close>, the second
  placeholder stays in the prompt.
\<close>

theorem constructPrompt_second_placeholder:
  "constructPrompt two_placeholders (lit ''x'')
     = lit ''Answer in en. Title in {{LANGUAGE}}.'' @ NL @ NL @ lit ''---'' @ NL @ NL @ lit ''x''"
  by (rule two_ph)

text \<open>
  C7, as the claim states it, fails in two places. The third step has no priority
  among the keywords: of the models \<open>big-model\<close>, \<open>x-turbo\<close>, \<open>y-flash\<close>, with a
  provider that has no preference list, the choice is \<open>x-turbo\<close>, the first in the
  list with any keyword, where the order of the keywords would give \<open>y-flash\<close>.
  And for a provider named like an inherited property, such as \<open>constructor\<close>, the
  function throws instead of choosing.
\<close>

theorem pick_priority_counterexample:
  "pickBestModel other_models (lit ''other'') = Inr (lit ''x-turbo'')
   \<and> spec_keyword_priority goodKeywords other_models = Some (lit ''y-flash'')
   \<and> pickBestModel other_models (lit ''constructor'') = Inl TypeError"
  by (intro conjI) (rule other_models_facts)+

text \<open>
  C7, amended. For every non-empty list of models and every provider that is not
  the name of a property that objects inherit (so for the four registered providers
  and for any unregistered name other than those), \<open>pickBestModel\<close> returns: for the
  on-device provider \<open>chrome\<close> its one identifier \<open>gemini-nano\<close>; otherwise the
  first entry of the provider's preference list that is among the models; otherwise
  the first of the models, in the order of the list, that contains any of the
  keywords \<open>flash\<close>, \<open>mini\<close>, \<open>haiku\<close>, \<open>turbo\<close>, whichever of them it is;
  otherwise the first model. For the models \<open>gpt-4o\<close> and \<open>gpt-4o-mini\<close> and the
  provider \<open>openai\<close> the choice is \<open>gpt-4o-mini\<close> in either order of the list.
\<close>

theorem pick_priority:
  "(models \<noteq> [] \<and> provider \<notin> set object_prototype_names \<longrightarrow>
      pickBestModel models provider =
        Inr (if provider = lit ''chrome'' then lit ''gemini-nano''
             else case find (\<lambda>pref. pref \<in> set models)
                         (case map_of preferences provider of None \<Rightarrow> [] | Some l \<Rightarrow> l) of
                    Some pref \<Rightarrow> pref
                  | None \<Rightarrow>
                      (case find (\<lambda>m. \<exists>k\<in>set goodKeywords. includes_str m k) models of
                         Some m \<Rightarrow> m
                       | None \<Rightarrow> hd models)))
   \<and> pickBestModel [lit ''gpt-4o'', lit ''gpt-4o-mini''] (lit ''openai'') = Inr (lit ''gpt-4o-mini'')
   \<and> pickBestModel [lit ''gpt-4o-mini'', lit ''gpt-4o''] (lit ''openai'') = Inr (lit ''gpt-4o-mini'')"
proof (intro conjI impI)
  assume h: "models \<noteq> [] \<and> provider \<notin> set object_prototype_names"
  show "pickBestModel models provider =
        Inr (if provider = lit ''chrome'' then lit ''gemini-nano''
             else case find (\<lambda>pref. pref \<in> set models)
                         (case map_of preferences provider of None \<Rightarrow> [] | Some l \<Rightarrow> l) of
                    Some pref \<Rightarrow> pref
                  | None \<Rightarrow>
                      (case find (\<lambda>m. \<exists>k\<in>set goodKeywords. includes_str m k) models of
                         Some m \<Rightarrow> m
                       | None \<Rightarrow> hd models))"
    by (rule pick_general [OF h [THEN conjunct1] h [THEN conjunct2]])
next
  show "pickBestModel [lit ''gpt-4o'', lit ''gpt-4o-mini''] (lit ''openai'') = Inr (lit ''gpt-4o-mini'')"
    by (rule pick_examples)
next
  show "pickBestModel [lit ''gpt-4o-mini'', lit ''gpt-4o''] (lit ''openai'') = Inr (lit ''gpt-4o-mini'')"
    by (rule pick_examples)
qed

theorem pick_priority_witness:
  "claude_models \<noteq> [] \<and> lit ''anthropic'' \<notin> set object_prototype_names
   \<and> pickBestModel claude_models (lit ''anthropic'') = Inr (lit ''claude-3-haiku-20240307'')"
proof -
  have h: "claude_models \<noteq> [] \<and> lit ''anthropic'' \<notin> set object_prototype_names"
    by (intro conjI) (rule claude_models_facts)+
  have r: "pickBestModel claude_models (lit ''anthropic'') = Inr (lit ''claude-3-haiku-20240307'')"
    using pick_priority [of claude_models "lit ''anthropic''", THEN conjunct1, rule_format, OF h]
    by (simp only: claude_models_eval)
  show ?thesis by (intro conjI) (rule claude_models_facts r)+
qed

text \<open>
  C8, as the claim states it, fails: five credential changes inside the window, the
  last of which does not pass the provider's test, lead to no refresh at all.
\<close>

theorem debounce_counterexample:
  "burst deleting_burst \<and> length deleting_burst = 5
   \<and> refreshes (lit ''openai'') None deleting_burst = []"
  by code_simp

text \<open>
  C8, amended. For every provider, each credential change clears the pending timer
  and sets a new one only if the new credential passes the provider's test (OpenAI:
  starts with \<open>sk-\<close>; Anthropic: starts with \<open>sk-ant-\<close>; Gemini: longer than 10).
  So a burst of changes, each less than the delay after the one before, leads to at
  most one call of \<open>fetchModels\<close>: exactly one, with the last credential and at the
  time of the last change plus 1000 ms, when the last credential passes the test,
  and none otherwise.
\<close>

theorem debounce_trailing_edge:
  "evs \<noteq> [] \<and> burst evs \<longrightarrow>
     refreshes provider None evs =
       (if key_gate provider (snd (last evs)) then [(fst (last evs) + 1000, snd (last evs))]
        else [])"
proof
  assume h: "evs \<noteq> [] \<and> burst evs"
  then obtain ev rest where e: "evs = ev # rest" by (cases evs) auto
  with h have "burst (ev # rest)" by simp
  then have "refreshes provider None (ev # rest) =
     (if key_gate provider (snd (last (ev # rest)))
      then [(fst (last (ev # rest)) + 1000, snd (last (ev # rest)))] else [])"
    by (rule refreshes_burst) simp
  then show "refreshes provider None evs =
       (if key_gate provider (snd (last evs)) then [(fst (last evs) + 1000, snd (last evs))]
        else [])"
    by (simp only: e)
qed

theorem debounce_trailing_edge_witness:
  "typing_burst \<noteq> [] \<and> burst typing_burst
   \<and> refreshes (lit ''openai'') None typing_burst = [(1400, lit ''sk-abcde'')]"
proof -
  have h: "typing_burst \<noteq> [] \<and> burst typing_burst"
    by (intro conjI) (rule typing_burst_facts)+
  from debounce_trailing_edge [of typing_burst "lit ''openai''", rule_format, OF h]
  have "refreshes (lit ''openai'') None typing_burst = [(1400, lit ''sk-abcde'')]"
    by (simp only: typing_burst_facts if_True)
  with h show ?thesis by simp
qed

text \<open>
  C9, as the claim states it, fails for a response without body: the error is the
  fixed message \<open>No response body\<close>, which carries neither the status nor the text
  of the response.
\<close>

theorem transport_failure_counterexample:
  "res_ok no_body \<and> res_body no_body = None
   \<and> outcome (openai_summarize (serve no_body) latin1 () (lit ''x'') plain_options)
       = Threw (lit ''No response body'')
   \<and> \<not> includes_str (lit ''No response body'') (decimal (res_status no_body))
   \<and> \<not> includes_str (lit ''No response body'') (res_text no_body)"
proof -
  have "outcome (openai_summarize (serve no_body) latin1 () (lit ''x'') plain_options)
       = Threw (lit ''No response body'')"
    unfolding openai_summarize_def
    by (subst summarize_with_no_body [where res = no_body]) (simp_all add: serve_def no_body_facts)
  then show ?thesis by (simp add: no_body_facts)
qed

text \<open>
  C9, amended. For the \<open>summarize\<close> of each network provider, a failure of the
  transport before any fragment yields no fragment and ends the generator with one
  error: for a response that is not \<open>ok\<close> the error
  \<open><Provider> API Error: <status> <text of the response>\<close>, which carries the status
  and the text; for an \<open>ok\<close> response without body the error \<open>No response body\<close>.
  The run never completes normally.
\<close>

theorem transport_failure:
  "(fetch (openai_request options txt) = Inr res \<and> (\<not> res_ok res \<or> res_body res = None) \<longrightarrow>
      fragments (openai_summarize fetch step st txt options) = []
      \<and> outcome (openai_summarize fetch step st txt options) =
          Threw (if \<not> res_ok res
                 then lit ''OpenAI API Error: '' @ decimal (res_status res) @ lit '' '' @ res_text res
                 else lit ''No response body''))
   \<and> (fetch (anthropic_request options txt) = Inr res \<and> (\<not> res_ok res \<or> res_body res = None) \<longrightarrow>
      fragments (anthropic_summarize fetch step st txt options) = []
      \<and> outcome (anthropic_summarize fetch step st txt options) =
          Threw (if \<not> res_ok res
                 then lit ''Anthropic API Error: '' @ decimal (res_status res) @ lit '' '' @ res_text res
                 else lit ''No response body''))
   \<and> (fetch (gemini_request options txt) = Inr res \<and> (\<not> res_ok res \<or> res_body res = None) \<longrightarrow>
      fragments (gemini_summarize fetch step st txt options) = []
      \<and> outcome (gemini_summarize fetch step st txt options) =
          Threw (if \<not> res_ok res
                 then lit ''Gemini API Error: '' @ decimal (res_status res) @ lit '' '' @ res_text res
                 else lit ''No response body''))"
proof (intro conjI impI)
  assume h: "fetch (openai_request options txt) = Inr res \<and> (\<not> res_ok res \<or> res_body res = None)"
  from summarize_with_failure [where fetch = fetch and req = "openai_request options txt"
      and name = "lit ''OpenAI''" and reader = "openai_read step st", OF h [THEN conjunct1] h [THEN conjunct2]]
  show "fragments (openai_summarize fetch step st txt options) = []"
    and "outcome (openai_summarize fetch step st txt options) =
          Threw (if \<not> res_ok res
                 then lit ''OpenAI API Error: '' @ decimal (res_status res) @ lit '' '' @ res_text res
                 else lit ''No response body'')"
    by (simp_all only: openai_summarize_def api_error_names [symmetric] append_assoc)
next
  assume h: "fetch (anthropic_request options txt) = Inr res \<and> (\<not> res_ok res \<or> res_body res = None)"
  from summarize_with_failure [where fetch = fetch and req = "anthropic_request options txt"
      and name = "lit ''Anthropic''" and reader = "anthropic_read step st", OF h [THEN conjunct1] h [THEN conjunct2]]
  show "fragments (anthropic_summarize fetch step st txt options) = []"
    and "outcome (anthropic_summarize fetch step st txt options) =
          Threw (if \<not> res_ok res
                 then lit ''Anthropic API Error: '' @ decimal (res_status res) @ lit '' '' @ res_text res
                 else lit ''No response body'')"
    by (simp_all only: anthropic_summarize_def api_error_names [symmetric] append_assoc)
next
  assume h: "fetch (gemini_request options txt) = Inr res \<and> (\<not> res_ok res \<or> res_body res = None)"
  from summarize_with_failure [where fetch = fetch and req = "gemini_request options txt"
      and name = "lit ''Gemini''" and reader = "gemini_read step st", OF h [THEN conjunct1] h [THEN conjunct2]]
  show "fragments (gemini_summarize fetch step st txt options) = []"
    and "outcome (gemini_summarize fetch step st txt options) =
          Threw (if \<not> res_ok res
                 then lit ''Gemini API Error: '' @ decimal (res_status res) @ lit '' '' @ res_text res
                 else lit ''No response body'')"
    by (simp_all only: gemini_summarize_def api_error_names [symmetric] append_assoc)
qed

theorem transport_failure_witness:
  "serve unauthorized (openai_request plain_options (lit ''x'')) = Inr unauthorized
   \<and> \<not> res_ok unauthorized
   \<and> fragments (openai_summarize (serve unauthorized) latin1 () (lit ''x'') plain_options) = []
   \<and> outcome (openai_summarize (serve unauthorized) latin1 () (lit ''x'') plain_options)
       = Threw (lit ''OpenAI API Error: 401 denied'')"
proof -
  have a: "serve unauthorized (openai_request plain_options (lit ''x'')) = Inr unauthorized"
    by (simp add: serve_def)
  have b: "\<not> res_ok unauthorized" by (rule unauthorized_facts)
  have h: "serve unauthorized (openai_request plain_options (lit ''x'')) = Inr unauthorized
      \<and> (\<not> res_ok unauthorized \<or> res_body unauthorized = None)"
    using a b by blast
  note t = transport_failure [of "serve unauthorized" plain_options "lit ''x''" unauthorized latin1 "()",
      THEN conjunct1, rule_format, OF h]
  from t have f: "fragments (openai_summarize (serve unauthorized) latin1 () (lit ''x'') plain_options) = []"
    by (rule conjunct1)
  from t have "outcome (openai_summarize (serve unauthorized) latin1 () (lit ''x'') plain_options)
       = Threw (if \<not> res_ok unauthorized
                 then lit ''OpenAI API Error: '' @ decimal (res_status unauthorized) @ lit '' '' @ res_text unauthorized
                 else lit ''No response body'')"
    by (rule conjunct2)
  then have o: "outcome (openai_summarize (serve unauthorized) latin1 () (lit ''x'') plain_options)
       = Threw (lit ''OpenAI API Error: 401 denied'')"
    by (simp only: unauthorized_facts if_True not_False_eq_True)
  show ?thesis by (intro conjI) (rule a b f o)+
qed

text \<open>
  C10. For the \<open>summarize\<close> of each network provider, when the model of the request
  is empty the request is still made, and it names the provider's default model:
  \<open>gpt-4o-mini\<close> in the body for OpenAI, \<open>claude-3-5-sonnet-20240620\<close> in the body
  for Anthropic, \<open>gemini-1.5-pro\<close> in the address for Gemini.
\<close>

theorem default_model:
  "model options = [] \<longrightarrow>
     sent (openai_summarize fetch step st txt options) = [openai_request options txt]
     \<and> body_field (openai_request options txt) (lit ''model'') = Val (JStr (lit ''gpt-4o-mini''))
     \<and> sent (anthropic_summarize fetch step st txt options) = [anthropic_request options txt]
     \<and> body_field (anthropic_request options txt) (lit ''model'')
         = Val (JStr (lit ''claude-3-5-sonnet-20240620''))
     \<and> sent (gemini_summarize fetch step st txt options) = [gemini_request options txt]
     \<and> req_url (gemini_request options txt)
         = lit ''https://generativelanguage.googleapis.com/v1beta/models/gemini-1.5-pro:streamGenerateContent?key=''
           @ apiKey options"
proof
  assume m: "model options = []"
  show "sent (openai_summarize fetch step st txt options) = [openai_request options txt]
     \<and> body_field (openai_request options txt) (lit ''model'') = Val (JStr (lit ''gpt-4o-mini''))
     \<and> sent (anthropic_summarize fetch step st txt options) = [anthropic_request options txt]
     \<and> body_field (anthropic_request options txt) (lit ''model'')
         = Val (JStr (lit ''claude-3-5-sonnet-20240620''))
     \<and> sent (gemini_summarize fetch step st txt options) = [gemini_request options txt]
     \<and> req_url (gemini_request options txt)
         = lit ''https://generativelanguage.googleapis.com/v1beta/models/gemini-1.5-pro:streamGenerateContent?key=''
           @ apiKey options"
    by (intro conjI)
       (simp_all only: openai_summarize_def anthropic_summarize_def gemini_summarize_def
          summarize_with_sent default_model_fields [OF m])
qed

theorem default_model_witness:
  "model plain_options = []
   \<and> sent (openai_summarize (serve unauthorized) latin1 () (lit ''x'') plain_options)
       = [openai_request plain_options (lit ''x'')]
   \<and> body_field (openai_request plain_options (lit ''x'')) (lit ''model'')
       = Val (JStr (lit ''gpt-4o-mini''))"
proof -
  have m: "model plain_options = []" by (simp add: plain_options_def)
  note t = default_model [of plain_options "serve unauthorized" latin1 "()" "lit ''x''", rule_format, OF m]
  from t have a: "sent (openai_summarize (serve unauthorized) latin1 () (lit ''x'') plain_options)
       = [openai_request plain_options (lit ''x'')]"
    by (rule conjunct1)
  from t have b: "body_field (openai_request plain_options (lit ''x'')) (lit ''model'')
       = Val (JStr (lit ''gpt-4o-mini''))"
    by (rule conjunct2 [THEN conjunct1])
  show ?thesis by (intro conjI) (rule m a b)+
qed

end
